theory Spec2Isabelle
  imports Complex_Main "HOL-Library.Sublist"
begin

section \<open>Data model\<close>

text \<open>
  The post-processing pipeline of \<^verbatim>\<open>omnizart/music/inference.py\<close>. Python integers are
  \<open>int\<close>, array lengths and indices that cannot be negative are \<open>nat\<close>. A numpy float
  is a finite real or NaN: \<open>fl = real option\<close> with \<open>None\<close> for NaN (the only
  non-finite value the pipeline itself creates, by the division 0/0 of \<open>norm\<close>). Arrays
  are nested lists, time first. Every raise of the source is an \<open>Inl\<close> result.
\<close>

datatype error =
  ValueError | IndexError | KeyError | AssertionError | ZeroDivisionError | OverflowError

type_synonym fl = "real option"

text \<open>A note dictionary of \<open>infer_pitch\<close>: keys \<open>start\<close>, \<open>end\<close>, \<open>stren\<close>.\<close>

record cand =
  start :: int
  endf :: int
  stren :: fl

text \<open>The same dictionary once \<open>infer_piece\<close> or the frame branch has set \<open>pitch\<close>.\<close>

record pnote = cand +
  pitch :: int

subsection \<open>Python indexing\<close>

definition py_index :: "int \<Rightarrow> int \<Rightarrow> int" where
  \<comment> \<open>a slice bound \<open>k\<close> on a sequence of length \<open>n\<close>\<close>
  "py_index n k = (if k < 0 then max 0 (k + n) else min k n)"

definition py_slice :: "'a list \<Rightarrow> int \<Rightarrow> int \<Rightarrow> 'a list" where
  \<comment> \<open>\<open>xs[i:j]\<close>\<close>
  "py_slice xs i j =
     (let n = int (length xs); a = py_index n i; b = py_index n j
      in take (nat (b - a)) (drop (nat a) xs))"

definition py_del :: "'a list \<Rightarrow> int \<Rightarrow> error + 'a list" where
  \<comment> \<open>\<open>del xs[k]\<close>\<close>
  "py_del xs k =
     (let n = int (length xs); j = (if k < 0 then k + n else k)
      in if 0 \<le> j \<and> j < n then Inr (take (nat j) xs @ drop (Suc (nat j)) xs)
         else Inl IndexError)"

definition column :: "nat \<Rightarrow> 'a list list \<Rightarrow> error + 'a list" where
  \<comment> \<open>\<open>a[:, c]\<close> on a 2-D array\<close>
  "column c rows =
     (if list_all (\<lambda>r. c < length r) rows then Inr (map (\<lambda>r. r ! c) rows)
      else Inl IndexError)"

section \<open>Peak-based segmentation of one pitch row: \<open>infer_pitch\<close>\<close>

text \<open>
  \<open>scipy.signal.find_peaks(w_on, distance=shortest, width=5)\<close> is a library call; it is the
  parameter \<open>find_peaks\<close>, applied to the onset row and the distance. scipy refuses a
  distance below 1 with a ValueError, which the model raises itself.
\<close>

fun provisional :: "real list \<Rightarrow> int \<Rightarrow> nat list \<Rightarrow> cand list" where
  "provisional w_on adjust [] = []"
| "provisional w_on adjust [p] =
     [\<lparr>start = int p - adjust, endf = int (length w_on), stren = Some (w_on ! p)\<rparr>]"
| "provisional w_on adjust (p # q # ps) =
     \<lparr>start = int p - adjust, endf = int q - adjust, stren = Some (w_on ! p)\<rparr>
       # provisional w_on adjust (q # ps)"

definition zero_window :: "real list \<Rightarrow> int \<Rightarrow> nat \<Rightarrow> bool" where
  \<comment> \<open>\<open>np.sum(w_dura[i : i + offset_interval]) == 0\<close>\<close>
  "zero_window w_dura offset_interval i =
     (sum_list (py_slice w_dura (int i) (int i + offset_interval)) = 0)"

definition scan_upper :: "nat list \<Rightarrow> nat \<Rightarrow> nat \<Rightarrow> nat" where
  \<comment> \<open>\<open>int(peaks[idx + 1]) if idx < len(peaks) - 2 else len(w_dura)\<close>\<close>
  "scan_upper peaks n idx =
     (if int idx < int (length peaks) - 2 then peaks ! (idx + 1) else n)"

definition first_silent :: "real list \<Rightarrow> int \<Rightarrow> nat \<Rightarrow> nat \<Rightarrow> nat option" where
  \<comment> \<open>the frame at which the inner loop breaks, if it does\<close>
  "first_silent w_dura offset_interval p upper =
     find (zero_window w_dura offset_interval) [p..<upper]"

definition scan_step ::
  "real list \<Rightarrow> int \<Rightarrow> int \<Rightarrow> nat list \<Rightarrow> cand list \<times> nat list \<Rightarrow> nat \<Rightarrow> cand list \<times> nat list"
where
  "scan_step w_dura shortest offset_interval peaks st idx =
     (case st of (notes, del_idx) \<Rightarrow>
        (case first_silent w_dura offset_interval (peaks ! idx)
                (scan_upper peaks (length w_dura) idx) of
           None \<Rightarrow> (notes, del_idx)
         | Some i \<Rightarrow>
             if int i - start (notes ! idx) < shortest then (notes, del_idx @ [idx])
             else (notes[idx := (notes ! idx)\<lparr>endf := int i\<rparr>], del_idx)))"

fun del_loop :: "int \<Rightarrow> nat list \<Rightarrow> 'a list \<Rightarrow> error + 'a list" where
  \<comment> \<open>\<open>for ii, i in enumerate(del_idx): del notes[i - ii]\<close>\<close>
  "del_loop ii [] notes = Inr notes"
| "del_loop ii (i # is) notes =
     (case py_del notes (int i - ii) of
        Inl e \<Rightarrow> Inl e
      | Inr notes' \<Rightarrow> del_loop (ii + 1) is notes')"

definition infer_pitch ::
  "(real list \<Rightarrow> int \<Rightarrow> nat list) \<Rightarrow> real list list \<Rightarrow> int \<Rightarrow> int \<Rightarrow> error + cand list"
where
  "infer_pitch find_peaks pitch_arr shortest offset_interval =
     (case column 2 pitch_arr of Inl e \<Rightarrow> Inl e | Inr w_on \<Rightarrow>
     (case column 1 pitch_arr of Inl e \<Rightarrow> Inl e | Inr w_dura \<Rightarrow>
      if shortest < 1 then Inl ValueError
      else let peaks = find_peaks w_on shortest in
        if peaks = [] then Inr []
        else if list_ex (\<lambda>p. length w_on \<le> p) peaks then Inl IndexError
        else let adjust = (if shortest = 10 then 5 else 2);
                 notes = provisional w_on adjust peaks;
                 st = foldl (scan_step w_dura shortest offset_interval peaks)
                        (notes, []) [0..<length peaks]
             in del_loop 0 (snd st) (fst st)))"

text \<open>
  The filter-pass formulation of the design notes: every candidate is generated, each one's
  fate is decided on its own by the forward scan, and the survivors are kept by one filter.
\<close>

datatype verdict = Keep | Discard | EndAt nat

definition verdict_of ::
  "real list \<Rightarrow> int \<Rightarrow> int \<Rightarrow> nat list \<Rightarrow> cand list \<Rightarrow> nat \<Rightarrow> verdict"
where
  "verdict_of w_dura shortest offset_interval peaks cands idx =
     (case first_silent w_dura offset_interval (peaks ! idx)
             (scan_upper peaks (length w_dura) idx) of
        None \<Rightarrow> Keep
      | Some i \<Rightarrow> if int i - start (cands ! idx) < shortest then Discard else EndAt i)"

definition apply_verdict :: "verdict \<Rightarrow> cand \<Rightarrow> cand" where
  "apply_verdict v c = (case v of EndAt i \<Rightarrow> c\<lparr>endf := int i\<rparr> | _ \<Rightarrow> c)"

definition infer_pitch_filter ::
  "(real list \<Rightarrow> int \<Rightarrow> nat list) \<Rightarrow> real list list \<Rightarrow> int \<Rightarrow> int \<Rightarrow> error + cand list"
where
  "infer_pitch_filter find_peaks pitch_arr shortest offset_interval =
     (case column 2 pitch_arr of Inl e \<Rightarrow> Inl e | Inr w_on \<Rightarrow>
     (case column 1 pitch_arr of Inl e \<Rightarrow> Inl e | Inr w_dura \<Rightarrow>
      if shortest < 1 then Inl ValueError
      else let peaks = find_peaks w_on shortest in
        if list_ex (\<lambda>p. length w_on \<le> p) peaks then Inl IndexError
        else let cands = provisional w_on (if shortest = 10 then 5 else 2) peaks;
                 v = verdict_of w_dura shortest offset_interval peaks cands
             in Inr (map (\<lambda>(c, idx). apply_verdict (v idx) c)
                      (filter (\<lambda>(c, idx). v idx \<noteq> Discard)
                         (zip cands [0..<length cands])))))"

section \<open>All pitches and onset alignment: \<open>infer_piece\<close>\<close>

definition ebind :: "error + 'a \<Rightarrow> ('a \<Rightarrow> error + 'b) \<Rightarrow> error + 'b" where
  \<comment> \<open>sequencing: an exception of the first computation is the result\<close>
  "ebind m f = (case m of Inl e \<Rightarrow> Inl e | Inr x \<Rightarrow> f x)"

definition py_round :: "real \<Rightarrow> int" where
  \<comment> \<open>Python's \<open>round\<close> of a float: to the nearest integer, a tie to the even one\<close>
  "py_round x =
     (let f = \<lfloor>x\<rfloor>; d = x - of_int f
      in if d < 1 / 2 then f else if 1 / 2 < d then f + 1
         else if even f then f else f + 1)"

definition py_fdiv :: "real \<Rightarrow> real \<Rightarrow> error + real" where
  \<comment> \<open>\<open>a / b\<close> on Python floats\<close>
  "py_fdiv a b = (if b = 0 then Inl ZeroDivisionError else Inr (a / b))"

definition min_align_diff :: int where
  "min_align_diff = 1"

definition with_pitch :: "nat \<Rightarrow> cand \<Rightarrow> pnote" where
  \<comment> \<open>\<open>ns["pitch"] = i\<close>\<close>
  "with_pitch i c = \<lparr>start = start c, endf = endf c, stren = stren c, pitch = int i\<rparr>"

fun collect_pitches ::
  "(real list \<Rightarrow> int \<Rightarrow> nat list) \<Rightarrow> real list list list \<Rightarrow> real \<Rightarrow> real \<Rightarrow> real
     \<Rightarrow> nat list \<Rightarrow> error + pnote list"
where
  "collect_pitches find_peaks piece shortest_sec offset_sec t_unit [] = Inr []"
| "collect_pitches find_peaks piece shortest_sec offset_sec t_unit (i # is) =
     (let pitch_arr = map (\<lambda>frame. frame ! i) piece in
      if sum_list (map sum_list pitch_arr) \<le> 0
      then collect_pitches find_peaks piece shortest_sec offset_sec t_unit is
      else
        ebind (py_fdiv shortest_sec t_unit) (\<lambda>sh.
        ebind (py_fdiv offset_sec t_unit) (\<lambda>off.
        ebind (infer_pitch find_peaks pitch_arr (py_round sh) (py_round off)) (\<lambda>pns.
        ebind (collect_pitches find_peaks piece shortest_sec offset_sec t_unit is) (\<lambda>rest.
        Inr (map (with_pitch i) pns @ rest))))))"

fun align :: "int \<Rightarrow> pnote list \<Rightarrow> pnote list" where
  "align last_start [] = []"
| "align last_start (n # ns) =
     (let start_diff = start n - last_start in
      if start_diff < min_align_diff
      then n\<lparr>start := start n - start_diff, endf := endf n - start_diff\<rparr> # align last_start ns
      else n # align (start n) ns)"

definition infer_piece ::
  "(real list \<Rightarrow> int \<Rightarrow> nat list) \<Rightarrow> real list list list \<Rightarrow> real \<Rightarrow> real \<Rightarrow> real
     \<Rightarrow> error + pnote list"
where
  \<comment> \<open>\<open>piece\<close> is time x 88 x 4; an array without frames passes the shape assertion\<close>
  "infer_piece find_peaks piece shortest_sec offset_sec t_unit =
     (if \<not> list_all (\<lambda>frame. length frame = 88) piece then Inl AssertionError
      else ebind (collect_pitches find_peaks piece shortest_sec offset_sec t_unit [0..<88])
             (\<lambda>notes. Inr (align 0 (sort_key start notes))))"

section \<open>Velocity mapping and score assembly: \<open>to_midi\<close>\<close>

definition fl_gt :: "fl \<Rightarrow> real \<Rightarrow> bool" where
  \<comment> \<open>\<open>a > b\<close>, false on NaN\<close>
  "fl_gt a b = (case a of None \<Rightarrow> False | Some x \<Rightarrow> b < x)"

definition fl_lt :: "fl \<Rightarrow> real \<Rightarrow> bool" where
  \<comment> \<open>\<open>a < b\<close>, false on NaN\<close>
  "fl_lt a b = (case a of None \<Rightarrow> False | Some x \<Rightarrow> x < b)"

fun min_max_loop :: "real \<times> real \<Rightarrow> fl list \<Rightarrow> real \<times> real" where
  \<comment> \<open>the pair is \<open>(MIN, MAX)\<close>\<close>
  "min_max_loop (mn, mx) [] = (mn, mx)"
| "min_max_loop (mn, mx) (nn_s # rest) =
     (let mx' = (if fl_gt nn_s mx then the nn_s else mx);
          mn' = (if fl_lt nn_s mn then the nn_s else mn)
      in min_max_loop (mn', mx') rest)"

definition find_min_max_stren :: "'a cand_scheme list \<Rightarrow> real \<times> real" where
  "find_min_max_stren notes = min_max_loop (999, 0) (map stren notes)"

definition py_int :: "real \<Rightarrow> int" where
  \<comment> \<open>\<open>int(x)\<close> of a finite float: truncation toward zero\<close>
  "py_int x = (if 0 \<le> x then \<lfloor>x\<rfloor> else \<lceil>x\<rceil>)"

definition s_low :: real where "s_low = 60"
definition s_up :: real where "s_up = 127"

definition v_map :: "real \<Rightarrow> real \<Rightarrow> fl \<Rightarrow> error + int" where
  \<comment> \<open>\<open>int(s_low + (s_up - s_low) * ((stren - l) / (u - l + 0.0001)))\<close>; \<open>int\<close> of NaN is
      a ValueError, of an infinity an OverflowError\<close>
  "v_map l u s =
     (case s of
        None \<Rightarrow> Inl ValueError
      | Some x \<Rightarrow>
          if u - l + 1 / 10000 = 0
          then (if x - l = 0 then Inl ValueError else Inl OverflowError)
          else Inr (py_int (s_low + (s_up - s_low) * ((x - l) / (u - l + 1 / 10000)))))"

text \<open>\<open>pretty_midi.Note\<close>, \<open>pretty_midi.Instrument\<close> and \<open>pretty_midi.PrettyMIDI\<close>.\<close>

record midi_note =
  velocity :: int
  note_pitch :: int
  note_start :: real
  note_end :: real

record instrument =
  program :: int
  name :: string
  inst_notes :: "midi_note list"

type_synonym score = "instrument list"

definition low_b :: int where
  \<comment> \<open>\<open>note_to_midi("A0")\<close>\<close>
  "low_b = 21"

definition to_note :: "real \<Rightarrow> real \<Rightarrow> real \<Rightarrow> pnote \<Rightarrow> error + midi_note" where
  "to_note l u t_unit nn =
     ebind (v_map l u (stren nn)) (\<lambda>volume.
       Inr \<lparr>velocity = volume, note_pitch = pitch nn + low_b,
            note_start = of_int (start nn) * t_unit, note_end = of_int (endf nn) * t_unit\<rparr>)"

fun to_notes :: "real \<Rightarrow> real \<Rightarrow> real \<Rightarrow> pnote list \<Rightarrow> error + midi_note list" where
  "to_notes l u t_unit [] = Inr []"
| "to_notes l u t_unit (nn # rest) =
     ebind (to_note l u t_unit nn) (\<lambda>m_note.
     ebind (to_notes l u t_unit rest) (\<lambda>ms. Inr (m_note # ms)))"

definition to_midi :: "pnote list \<Rightarrow> real \<Rightarrow> error + score" where
  "to_midi notes t_unit =
     (case find_min_max_stren notes of (l, u) \<Rightarrow>
        ebind (to_notes l u t_unit notes) (\<lambda>ms.
          Inr [\<lparr>program = 0, name = [], inst_notes = ms\<rparr>]))"

section \<open>Frame-run segmentation: \<open>find_occur\<close>\<close>

record occur =
  onset :: nat
  offset :: nat

definition emit :: "real \<Rightarrow> nat \<Rightarrow> nat \<Rightarrow> occur list" where
  \<comment> \<open>\<open>if last - start >= min_frm: note.append({"onset": start, "offset": last})\<close>\<close>
  "emit min_frm s l = (if min_frm \<le> of_int (int l - int s) then [\<lparr>onset = s, offset = l\<rparr>] else [])"

fun occur_loop :: "real \<Rightarrow> nat \<Rightarrow> nat \<Rightarrow> nat list \<Rightarrow> occur list" where
  "occur_loop min_frm s l [] = emit min_frm s l"
| "occur_loop min_frm s l (cidx # rest) =
     (if 1 < int cidx - int l then emit min_frm s l @ occur_loop min_frm cidx cidx rest
      else occur_loop min_frm s cidx rest)"

definition find_occur :: "real list \<Rightarrow> real \<Rightarrow> real \<Rightarrow> error + occur list" where
  "find_occur pitch_arr t_unit min_duration =
     ebind (py_fdiv (max t_unit min_duration) t_unit) (\<lambda>min_frm.
       let cand = filter (\<lambda>i. 1 / 2 < pitch_arr ! i) [0..<length pitch_arr] in
       if cand = [] then Inr []
       else Inr (occur_loop min_frm (hd cand) (hd cand) cand))"

section \<open>Arrays of numpy floats\<close>

text \<open>
  A 2-D array is a list of rows, a 3-D array a list of frames, each a list of cells (one per
  pitch bin), each a list of channel values. numpy arrays are rectangular; the shape of an
  array is read off its first frame and first cell, and an array without frames has width 0.
\<close>

fun emap :: "('a \<Rightarrow> error + 'b) \<Rightarrow> 'a list \<Rightarrow> error + 'b list" where
  "emap f [] = Inr []"
| "emap f (x # xs) = ebind (f x) (\<lambda>y. ebind (emap f xs) (\<lambda>ys. Inr (y # ys)))"

definition width :: "'a list list \<Rightarrow> nat" where
  \<comment> \<open>\<open>a.shape[1]\<close>\<close>
  "width a = (case a of [] \<Rightarrow> 0 | r # _ \<Rightarrow> length r)"

definition depth :: "'a list list list \<Rightarrow> nat" where
  \<comment> \<open>\<open>a.shape[2]\<close>\<close>
  "depth a = (case concat a of [] \<Rightarrow> 0 | c # _ \<Rightarrow> length c)"

definition has_shape :: "nat \<Rightarrow> nat \<Rightarrow> 'a list list \<Rightarrow> bool" where
  "has_shape t p a = (length a = t \<and> list_all (\<lambda>r. length r = p) a)"

definition channel :: "nat \<Rightarrow> 'a list list list \<Rightarrow> error + 'a list list" where
  \<comment> \<open>\<open>a[:, :, c]\<close>\<close>
  "channel c a = emap (column c) a"

definition py_nth :: "'a list \<Rightarrow> int \<Rightarrow> error + 'a" where
  \<comment> \<open>\<open>xs[k]\<close>: a negative index counts from the end\<close>
  "py_nth xs k =
     (let n = int (length xs); j = (if k < 0 then k + n else k)
      in if 0 \<le> j \<and> j < n then Inr (xs ! nat j) else Inl IndexError)"

definition fl_add :: "fl \<Rightarrow> fl \<Rightarrow> fl" where
  "fl_add a b = (case (a, b) of (Some x, Some y) \<Rightarrow> Some (x + y) | _ \<Rightarrow> None)"

definition fl_half :: "fl \<Rightarrow> fl" where
  "fl_half a = map_option (\<lambda>x. x / 2) a"

definition np_mean :: "fl list \<Rightarrow> fl" where
  \<comment> \<open>\<open>np.mean\<close> of the flattened array: NaN on an empty array or on a NaN\<close>
  "np_mean xs =
     (if xs = [] \<or> list_ex (\<lambda>x. x = None) xs then None
      else Some (sum_list (map the xs) / real (length xs)))"

definition np_std :: "fl list \<Rightarrow> fl" where
  \<comment> \<open>\<open>np.std\<close>: \<open>sqrt(mean(abs(x - x.mean()) ** 2))\<close>\<close>
  "np_std xs =
     (case np_mean xs of
        None \<Rightarrow> None
      | Some m \<Rightarrow> Some (sqrt (sum_list (map (\<lambda>x. \<bar>the x - m\<bar> ^ 2) xs) / real (length xs))))"

definition norm_cell :: "fl \<Rightarrow> fl \<Rightarrow> fl \<Rightarrow> fl" where
  \<comment> \<open>\<open>(x - mean) / std\<close>. A zero \<open>std\<close> means that every \<open>x\<close> is the mean, so the
      quotient is 0/0, which numpy evaluates to NaN with a warning\<close>
  "norm_cell m s x =
     (case (m, s, x) of
        (Some m', Some s', Some x') \<Rightarrow> if s' = 0 then None else Some ((x' - m') / s')
      | _ \<Rightarrow> None)"

definition norm_arr :: "fl list list \<Rightarrow> fl list list" where
  \<comment> \<open>\<open>norm\<close> on a 2-D array\<close>
  "norm_arr data =
     (let xs = concat data in map (map (norm_cell (np_mean xs) (np_std xs))) data)"

definition norm_arr3 :: "fl list list list \<Rightarrow> fl list list list" where
  \<comment> \<open>\<open>norm\<close> on a 3-D array\<close>
  "norm_arr3 data =
     (let xs = concat (concat data)
      in map (map (map (norm_cell (np_mean xs) (np_std xs)))) data)"

section \<open>Temporal interpolation\<close>

text \<open>
  \<open>scipy.interpolate.CubicSpline(ori_x, data, axis=0)\<close> is a library call: the parameter
  \<open>cubic_spline\<close> takes the knots and the data and fails or returns the fitted function
  from a time to a row.
\<close>

type_synonym spline = "real list \<Rightarrow> fl list list \<Rightarrow> error + (real \<Rightarrow> fl list)"

definition arange :: "nat \<Rightarrow> real \<Rightarrow> real list" where
  \<comment> \<open>\<open>np.arange(0, n, step)\<close> for a step other than 0\<close>
  "arange n step = map (\<lambda>i. real i * step) [0..<nat \<lceil>real n / step\<rceil>]"

definition interpolation :: "spline \<Rightarrow> fl list list \<Rightarrow> real \<Rightarrow> real \<Rightarrow> error + fl list list" where
  \<comment> \<open>\<open>np.arange\<close> refuses a zero step\<close>
  "interpolation cubic_spline data ori_t_unit tar_t_unit =
     ebind (py_fdiv tar_t_unit ori_t_unit) (\<lambda>step.
       if step = 0 then Inl ValueError
       else let ori_x = map real [0..<length data];
                tar_x = arange (length data) step
            in ebind (cubic_spline ori_x data) (\<lambda>func. Inr (map func tar_x)))"

section \<open>Channel normalization: \<open>norm_onset_dura\<close>\<close>

definition clip_onset :: "fl \<Rightarrow> fl \<Rightarrow> fl" where
  \<comment> \<open>one position of \<open>np.where(onset < dura, 0, onset)\<close>\<close>
  "clip_onset on du =
     (case (on, du) of (Some x, Some y) \<Rightarrow> if x < y then Some 0 else on | _ \<Rightarrow> on)"

definition below_to_zero :: "real \<Rightarrow> fl \<Rightarrow> fl" where
  \<comment> \<open>one position of \<open>np.where(a < th, 0, a)\<close>\<close>
  "below_to_zero th a = (if fl_lt a th then Some 0 else a)"

definition map2d :: "('a \<Rightarrow> 'b) \<Rightarrow> 'a list list \<Rightarrow> 'b list list" where
  "map2d f a = map (map f) a"

definition zip2d :: "('a \<Rightarrow> 'b \<Rightarrow> 'c) \<Rightarrow> 'a list list \<Rightarrow> 'b list list \<Rightarrow> 'c list list" where
  "zip2d f a b = map2 (map2 f) a b"

definition put_channels :: "nat \<Rightarrow> fl \<Rightarrow> fl \<Rightarrow> fl list" where
  \<comment> \<open>one cell of \<open>norm_pred\<close>: zeros, channel 2 set to the onset, channel 1 to the duration\<close>
  "put_channels c du on = (replicate c (Some 0))[2 := on, 1 := du]"

definition norm_onset_dura ::
  "spline \<Rightarrow> fl list list list \<Rightarrow> real \<Rightarrow> real \<Rightarrow> bool \<Rightarrow> bool \<Rightarrow> error + fl list list list"
where
  \<comment> \<open>numpy refuses to assign or combine arrays of different shapes: ValueError\<close>
  "norm_onset_dura cubic_spline pred onset_th dura_th interpolate normalize' =
     (let len = (if interpolate then length pred * 2 else length pred) in
      ebind (channel 2 pred) (\<lambda>pred2.
      ebind (interpolation cubic_spline pred2 (2 / 100) (1 / 100)) (\<lambda>onset0.
      ebind (channel 1 pred) (\<lambda>pred1.
      ebind (interpolation cubic_spline pred1 (2 / 100) (1 / 100)) (\<lambda>dura0.
        if \<not> (has_shape len (width pred) onset0 \<and> has_shape len (width pred) dura0)
        then Inl ValueError
        else
          let onset1 = zip2d clip_onset onset0 dura0;
              norm_onset = (if normalize' then norm_arr onset1 else onset1);
              onset = map2d (below_to_zero onset_th) norm_onset;
              norm_dura = (if normalize' then zip2d fl_add (norm_arr dura0) onset
                           else zip2d fl_add dura0 onset);
              dura = map2d (below_to_zero dura_th) norm_dura
          in Inr (zip2d (put_channels (depth pred)) dura onset))))))"

definition take_cols :: "int list \<Rightarrow> 'a list list \<Rightarrow> error + 'a list list" where
  \<comment> \<open>\<open>pred[:, range]\<close>\<close>
  "take_cols idxs a = emap (\<lambda>frame. emap (py_nth frame) idxs) a"

definition py_range :: "int \<Rightarrow> int \<Rightarrow> int list" where
  \<comment> \<open>\<open>range(a, b)\<close>\<close>
  "py_range a b = [a..b - 1]"

definition hstack :: "'a list list \<Rightarrow> 'a list list \<Rightarrow> error + 'a list list" where
  "hstack a b = (if length a = length b then Inr (map2 (@) a b) else Inl ValueError)"

definition norm_split_onset_dura ::
  "spline \<Rightarrow> fl list list list \<Rightarrow> real \<Rightarrow> real \<Rightarrow> int \<Rightarrow> real \<Rightarrow> bool \<Rightarrow> bool
     \<Rightarrow> error + fl list list list"
where
  "norm_split_onset_dura cubic_spline pred onset_th lower_onset_th split_bound dura_th
       interpolate normalize' =
     ebind (take_cols (py_range (4 * split_bound) 352) pred) (\<lambda>upper_pred0.
     ebind (norm_onset_dura cubic_spline upper_pred0 onset_th dura_th interpolate normalize')
       (\<lambda>upper_pred.
     ebind (take_cols (py_range 0 (4 * split_bound)) pred) (\<lambda>lower_pred0.
     ebind (norm_onset_dura cubic_spline lower_pred0 lower_onset_th dura_th interpolate normalize')
       (\<lambda>lower_pred.
     hstack lower_pred upper_pred))))"

section \<open>Single-instrument inference: \<open>note_inference\<close>\<close>

text \<open>
  \<open>down_sample\<close> and \<open>roll_down_sample\<close> are imported from \<open>omnizart.music.utils\<close>, a
  module of its own; with the library calls \<open>find_peaks\<close> and \<open>CubicSpline\<close> they are
  the fields of the environment the pipeline runs in.
\<close>

record env =
  lib_find_peaks :: "real list \<Rightarrow> int \<Rightarrow> nat list"
  lib_cubic_spline :: spline
  down_sample :: "real list list list \<Rightarrow> error + real list list list"
  roll_down_sample :: "real list list \<Rightarrow> error + real list list"

definition lift_positive :: "fl \<Rightarrow> real" where
  \<comment> \<open>one position of \<open>np.where(norm_pred > 0, norm_pred + 1, 0)\<close>\<close>
  "lift_positive a = (case a of None \<Rightarrow> 0 | Some x \<Rightarrow> if 0 < x then x + 1 else 0)"

definition binarize :: "real \<Rightarrow> fl \<Rightarrow> real" where
  \<comment> \<open>one position of \<open>np.where(prob > frm_th, 1, 0)\<close>\<close>
  "binarize frm_th a = (if fl_gt a frm_th then 1 else 0)"

definition frame_note :: "fl list list \<Rightarrow> real \<Rightarrow> nat \<Rightarrow> occur \<Rightarrow> error + pnote" where
  \<comment> \<open>the dictionary built for one run \<open>nn\<close> of pitch \<open>idx\<close>: its strength is
      \<open>mix[int(nn["onset"] * t_unit), idx * 4]\<close>\<close>
  "frame_note mix t_unit idx nn =
     ebind (py_nth mix (py_int (real (onset nn) * t_unit))) (\<lambda>row.
     ebind (py_nth row (int idx * 4)) (\<lambda>s.
       Inr \<lparr>start = int (onset nn), endf = int (offset nn), stren = s, pitch = int idx\<rparr>))"

fun frame_notes ::
  "fl list list \<Rightarrow> real list list \<Rightarrow> real \<Rightarrow> nat list \<Rightarrow> error + pnote list"
where
  "frame_notes mix prob t_unit [] = Inr []"
| "frame_notes mix prob t_unit (idx # rest) =
     ebind (column idx prob) (\<lambda>col.
     ebind (find_occur col t_unit (3 / 100)) (\<lambda>p_note.
     ebind (emap (frame_note mix t_unit idx) p_note) (\<lambda>ns.
     ebind (frame_notes mix prob t_unit rest) (\<lambda>more. Inr (ns @ more)))))"

definition mix_channels :: "fl list list list \<Rightarrow> error + fl list list" where
  "mix_channels pred =
     (let ch_num = depth pred in
      if ch_num = 2 then channel 1 pred
      else if ch_num = 3
      then ebind (channel 1 pred) (\<lambda>c1.
           ebind (channel 2 pred) (\<lambda>c2. Inr (map2d fl_half (zip2d fl_add c1 c2))))
      else Inl ValueError)"

definition note_branch ::
  "env \<Rightarrow> fl list list list \<Rightarrow> real \<Rightarrow> real option \<Rightarrow> int \<Rightarrow> real \<Rightarrow> bool \<Rightarrow> error + pnote list"
where
  \<comment> \<open>the list \<open>notes\<close> of the branch \<open>mode.startswith("note")\<close>\<close>
  "note_branch E pred onset_th lower_onset_th split_bound dura_th normalize' =
     ebind (case lower_onset_th of
              Some lo \<Rightarrow> norm_split_onset_dura (lib_cubic_spline E) pred onset_th lo split_bound
                           dura_th True normalize'
            | None \<Rightarrow> norm_onset_dura (lib_cubic_spline E) pred onset_th dura_th True normalize')
       (\<lambda>norm_pred.
     ebind (down_sample E (map (map2d lift_positive) norm_pred)) (\<lambda>piece.
       infer_piece (lib_find_peaks E) piece (1 / 10) (12 / 100) (1 / 100)))"

definition frame_branch ::
  "env \<Rightarrow> fl list list list \<Rightarrow> real \<Rightarrow> bool \<Rightarrow> real \<Rightarrow> error + pnote list"
where
  \<comment> \<open>the list \<open>notes\<close> of the branch \<open>mode.startswith("frame") or mode == "true_frame"\<close>\<close>
  "frame_branch E pred frm_th normalize' t_unit =
     ebind (mix_channels pred) (\<lambda>mix.
       let prob0 = (if normalize' then norm_arr mix else mix);
           prob1 = map2d (binarize frm_th) prob0
       in ebind (roll_down_sample E prob1) (\<lambda>prob.
            frame_notes mix prob t_unit [0..<width prob]))"

definition note_inference ::
  "env \<Rightarrow> fl list list list \<Rightarrow> string \<Rightarrow> real \<Rightarrow> real option \<Rightarrow> int \<Rightarrow> real \<Rightarrow> real \<Rightarrow> bool
     \<Rightarrow> real \<Rightarrow> error + score"
where
  "note_inference E pred mode onset_th lower_onset_th split_bound dura_th frm_th normalize'
       t_unit =
     (if prefix ''note'' mode then
        ebind (note_branch E pred onset_th lower_onset_th split_bound dura_th normalize')
          (\<lambda>notes. to_midi notes (t_unit / 2))
      else if prefix ''frame'' mode \<or> mode = ''true_frame'' then
        ebind (frame_branch E pred frm_th normalize' t_unit) (\<lambda>notes. to_midi notes t_unit)
      else Inl ValueError)"

section \<open>Multi-instrument inference: \<open>multi_inst_note_inference\<close>\<close>

text \<open>A threshold argument is a float or a list of floats.\<close>

datatype threshold = Scalar real | PerInst "real list"

definition threshold_type_converter :: "threshold \<Rightarrow> nat \<Rightarrow> error + real list" where
  "threshold_type_converter th len =
     (case th of
        PerInst ths \<Rightarrow> if length ths = len then Inr ths else Inl AssertionError
      | Scalar x \<Rightarrow> Inr (replicate len x))"

definition inst_item :: "int \<Rightarrow> int \<Rightarrow> nat \<Rightarrow> fl list list list \<Rightarrow> error + fl list list list" where
  \<comment> \<open>\<open>pred[:, :, [it * ch_per_inst + i + 1 for it in range(iters)]]\<close>\<close>
  "inst_item ch_per_inst iters i pred =
     emap (emap (\<lambda>cell. emap (\<lambda>it. py_nth cell (it * ch_per_inst + int i + 1))
                          (py_range 0 iters))) pred"

definition np_average :: "fl list \<Rightarrow> fl" where
  "np_average xs = np_mean xs"

definition merge_first :: "fl list list list \<Rightarrow> error + fl list list list" where
  \<comment> \<open>\<open>pp[:, :, 0] = np.average(pp, axis=2)\<close>\<close>
  "merge_first pp =
     emap (emap (\<lambda>cell. if cell = [] then Inl IndexError else Inr (cell[0 := np_average cell])))
       pp"

definition inst_std :: "fl list list list list \<Rightarrow> nat \<Rightarrow> error + fl" where
  \<comment> \<open>the sum, over the channels of instrument \<open>i\<close>, of \<open>np.std(ch_container[ii][:, :, i])\<close>\<close>
  "inst_std ch_container i =
     ebind (emap (channel i) ch_container) (\<lambda>normed_ch.
       Inr (foldl (\<lambda>std ch. fl_add std (np_std (concat ch))) (Some 0) normed_ch))"

definition gated :: "int \<Rightarrow> int \<Rightarrow> real \<Rightarrow> fl \<Rightarrow> bool" where
  \<comment> \<open>\<open>iters > 1 and (std / ch_per_inst < inst_th)\<close>\<close>
  "gated iters ch_per_inst inst_th std =
     (1 < iters \<and> fl_lt (map_option (\<lambda>x. x / real_of_int ch_per_inst) std) inst_th)"

definition dstack :: "fl list list list \<Rightarrow> nat \<Rightarrow> nat \<Rightarrow> fl list list list" where
  \<comment> \<open>\<open>np.dstack([zeros] + normed_ch)\<close> for \<open>zeros\<close> of \<open>t\<close> frames and \<open>p\<close> bins\<close>
  "dstack normed_ch t p =
     map (\<lambda>f. map (\<lambda>b. Some 0 # map (\<lambda>ch. ch ! f ! b) normed_ch) [0..<p]) [0..<t]"

fun inst_loop ::
  "env \<Rightarrow> (int \<Rightarrow> string option) \<Rightarrow> int list \<Rightarrow> fl list list list \<Rightarrow> fl list list list list
     \<Rightarrow> string \<Rightarrow> int \<Rightarrow> int \<Rightarrow> real list \<Rightarrow> real list \<Rightarrow> real list \<Rightarrow> real \<Rightarrow> bool \<Rightarrow> real
     \<Rightarrow> nat list \<Rightarrow> error + score"
where
  "inst_loop E name_mapping channel_program_mapping pred ch_container mode iters ch_per_inst
       onset_th dura_th frm_th inst_th normalize' t_unit [] = Inr []"
| "inst_loop E name_mapping channel_program_mapping pred ch_container mode iters ch_per_inst
       onset_th dura_th frm_th inst_th normalize' t_unit (i # rest) =
     ebind (emap (channel i) ch_container) (\<lambda>normed_ch.
     ebind (inst_std ch_container i) (\<lambda>std.
       if gated iters ch_per_inst inst_th std
       then inst_loop E name_mapping channel_program_mapping pred ch_container mode iters
              ch_per_inst onset_th dura_th frm_th inst_th normalize' t_unit rest
       else
         ebind (note_inference E (dstack normed_ch (length pred) (width pred)) mode
                  (onset_th ! i) None 36 (dura_th ! i) (frm_th ! i) normalize' t_unit) (\<lambda>midi.
         ebind (py_nth channel_program_mapping (int i)) (\<lambda>inst_program.
         ebind (case name_mapping inst_program of None \<Rightarrow> Inl KeyError | Some n \<Rightarrow> Inr n)
           (\<lambda>inst_name.
         ebind (inst_loop E name_mapping channel_program_mapping pred ch_container mode iters
                  ch_per_inst onset_th dura_th frm_th inst_th normalize' t_unit rest) (\<lambda>more.
           Inr (\<lparr>program = inst_program, name = inst_name,
                   inst_notes = inst_notes (hd midi)\<rparr> # more)))))))"

definition mode_channels :: "string \<Rightarrow> error + string \<times> int" where
  \<comment> \<open>the mode after the first conditional, and \<open>ch_per_inst\<close>\<close>
  "mode_channels mode =
     (if mode = ''note-stream'' \<or> mode = ''note'' then Inr (mode, 2)
      else if mode = ''frame-stream'' \<or> mode = ''frame'' then Inr (mode, 2)
      else if mode = ''true_frame'' then Inr (''frame'', 1)
      else Inl ValueError)"

definition containers ::
  "fl list list list \<Rightarrow> int \<Rightarrow> int \<Rightarrow> bool \<Rightarrow> error + fl list list list list"
where
  \<comment> \<open>\<open>ch_container\<close>: first the duration channels of all instruments, then the onset ones\<close>
  "containers pred ch_per_inst iters normalize' =
     emap (\<lambda>i. ebind (inst_item ch_per_inst iters i pred) (\<lambda>item.
                   Inr (if normalize' then norm_arr3 item else item)))
       [0..<nat ch_per_inst]"

definition merge_channels ::
  "string \<Rightarrow> int \<Rightarrow> fl list list list list \<Rightarrow> error + int \<times> fl list list list list"
where
  \<comment> \<open>without instrument streams all channels are merged into the first: \<open>iters = 1\<close>\<close>
  "merge_channels mode iters ch_container =
     (if \<not> suffix ''-stream'' mode \<and> mode \<noteq> ''true_frame''
      then ebind (emap merge_first ch_container) (\<lambda>c. Inr (1, c))
      else Inr (iters, ch_container))"

definition multi_inst_note_inference ::
  "env \<Rightarrow> (int \<Rightarrow> string option) \<Rightarrow> fl list list list \<Rightarrow> string \<Rightarrow> threshold \<Rightarrow> threshold
     \<Rightarrow> threshold \<Rightarrow> real \<Rightarrow> bool \<Rightarrow> real \<Rightarrow> int list \<Rightarrow> error + score"
where
  \<comment> \<open>\<open>name_mapping\<close> is the table \<open>MIDI_PROGRAM_NAME_MAPPING\<close>, read at \<open>str(program)\<close>\<close>
  "multi_inst_note_inference E name_mapping pred mode onset_th dura_th frm_th inst_th
       normalize' t_unit channel_program_mapping =
     ebind (mode_channels mode) (\<lambda>(mode1, ch_per_inst).
       if (int (depth pred) - 1) mod ch_per_inst \<noteq> 0 then Inl AssertionError
       else
         ebind (containers pred ch_per_inst ((int (depth pred) - 1) div ch_per_inst) normalize')
           (\<lambda>ch_container0.
         ebind (merge_channels mode1 ((int (depth pred) - 1) div ch_per_inst) ch_container0)
           (\<lambda>(iters, ch_container).
         ebind (threshold_type_converter onset_th (nat iters)) (\<lambda>onset_ths.
         ebind (threshold_type_converter dura_th (nat iters)) (\<lambda>dura_ths.
         ebind (threshold_type_converter frm_th (nat iters)) (\<lambda>frm_ths.
           inst_loop E name_mapping channel_program_mapping pred ch_container mode1 iters
             ch_per_inst onset_ths dura_ths frm_ths inst_th normalize' t_unit
             [0..<nat iters]))))))"

section \<open>The presence gate as a filter\<close>

text \<open>
  The instruments, among those of \<open>idxs\<close>, whose summed standard deviation \<open>s\<close> does not
  satisfy \<open>iters > 1\<close> and \<open>s / ch_per_inst < inst_th\<close>.
\<close>

definition kept_instruments ::
  "fl list list list list \<Rightarrow> int \<Rightarrow> int \<Rightarrow> real \<Rightarrow> nat list \<Rightarrow> nat list"
where
  "kept_instruments ch_container iters ch_per_inst inst_th idxs =
     filter (\<lambda>i. case inst_std ch_container i of
                    Inr (Some s) \<Rightarrow> \<not> (1 < iters \<and> s / real_of_int ch_per_inst < inst_th)
                  | _ \<Rightarrow> True) idxs"

section \<open>The invariant of a note event\<close>

definition valid_event :: "midi_note \<Rightarrow> bool" where
  "valid_event m =
     (note_start m < note_end m \<and> 21 \<le> note_pitch m \<and> note_pitch m \<le> 108 \<and>
      60 \<le> velocity m \<and> velocity m \<le> 127)"

section \<open>Example inputs\<close>

text \<open>
  One pitch row of \<open>n\<close> frames, channels (off, duration, onset, offset): the onset channel
  has two triangular bumps of height 6 and half-width 6 with summits \<open>c1\<close> and \<open>c2\<close>, the
  duration channel is 1 on the frames \<open>lo \<le> i < hi\<close>. On such an onset row \<open>find_peaks\<close>
  with distance 10 and width 5 returns the two summits; \<open>peaks_at\<close> is the library call
  with that result.
\<close>

definition bump :: "nat \<Rightarrow> nat \<Rightarrow> real" where
  "bump c i = max 0 (6 - \<bar>real i - real c\<bar>)"

definition demo_row :: "nat \<Rightarrow> nat \<Rightarrow> nat \<Rightarrow> nat \<Rightarrow> nat \<Rightarrow> real list list" where
  "demo_row n c1 c2 lo hi =
     map (\<lambda>i. [0, if lo \<le> i \<and> i < hi then 1 else 0, bump c1 i + bump c2 i, 0]) [0..<n]"

definition peaks_at :: "nat list \<Rightarrow> real list \<Rightarrow> int \<Rightarrow> nat list" where
  "peaks_at ps w_on distance = ps"

text \<open>A piece of 88 pitches that is silent except for the row \<open>row\<close> at pitch \<open>q\<close>.\<close>

definition demo_piece :: "nat \<Rightarrow> real list list \<Rightarrow> real list list list" where
  "demo_piece q row = map (\<lambda>r. map (\<lambda>j. if j = q then r else [0, 0, 0, 0]) [0..<88]) row"

text \<open>A note of strength \<open>s\<close> at pitch index 39.\<close>

definition strength_note :: "real \<Rightarrow> pnote" where
  "strength_note s = \<lparr>start = 0, endf = 10, stren = Some s, pitch = 39\<rparr>"

text \<open>
  A piecewise-linear interpolant through the knots. Like the library's cubic spline it needs
  two knots and finite data, returns the data at the knots and is constant on constant
  data; it is the \<open>cubic_spline\<close> of the examples.
\<close>

definition linear_spline :: spline where
  "linear_spline xs data =
     (if length data < 2 \<or> list_ex (list_ex (\<lambda>v. v = None)) data then Inl ValueError
      else Inr (\<lambda>x. let k = nat \<lfloor>x\<rfloor>; n = length data;
                        a = data ! min k (n - 1); b = data ! min (k + 1) (n - 1);
                        w = x - real k
                    in map2 (\<lambda>u v. Some ((1 - w) * the u + w * the v)) a b))"

text \<open>
  Down-sampling from 4 bins per semitone: a pitch is active when at least 3 of its 4 bins
  are. \<open>demo_roll_down_sample\<close> does it on a binary activity array of at most 352 bins,
  \<open>demo_down_sample\<close> on every channel of a 3-D array, where it returns 88 pitches and
  the bins the array does not have count as silent. They are the \<open>roll_down_sample\<close> and
  \<open>down_sample\<close> of the examples.
\<close>

definition group4 :: "real list \<Rightarrow> real list" where
  "group4 row =
     map (\<lambda>j. if 3 \<le> sum_list (take 4 (drop (4 * j) row)) then 1 else 0)
       [0..<length row div 4]"

definition demo_roll_down_sample :: "real list list \<Rightarrow> error + real list list" where
  "demo_roll_down_sample prob =
     (if list_all (\<lambda>r. length r mod 4 = 0 \<and> length r \<le> 352) prob then Inr (map group4 prob)
      else Inl AssertionError)"

definition group4_cells :: "nat \<Rightarrow> real list list \<Rightarrow> real list list" where
  "group4_cells c frame =
     map (\<lambda>j. map (\<lambda>k. if 3 \<le> sum_list (map (\<lambda>cell. cell ! k) (take 4 (drop (4 * j) frame)))
                        then 1 else 0) [0..<c]) [0..<88]"

definition demo_down_sample :: "real list list list \<Rightarrow> error + real list list list" where
  "demo_down_sample pred = Inr (map (group4_cells (depth pred)) pred)"

definition demo_env :: "nat list \<Rightarrow> env" where
  "demo_env ps = \<lparr>lib_find_peaks = peaks_at ps, lib_cubic_spline = linear_spline,
     down_sample = demo_down_sample, roll_down_sample = demo_roll_down_sample\<rparr>"

text \<open>
  A duration-only prediction of 6 frames and the 4 bins of one pitch (channels: background,
  duration), 0.9 from frame 2 on and 0.1 before.
\<close>

definition demo_frame_pred :: "fl list list list" where
  "demo_frame_pred =
     map (\<lambda>t. replicate 4 [Some 0, Some (if 2 \<le> t then 9 / 10 else 1 / 10)]) [0..<6]"

text \<open>
  A prediction of 2 frames and 4 bins for two instruments (channels: background, then
  duration and onset of instrument 0, then of instrument 1). Both channels of instrument 0
  are 1 on frame 0 and -1 on frame 1, so each has standard deviation 1; instrument 1 is
  silent. With it the program numbers of the two instruments and their names.
\<close>

definition demo_stream_pred :: "fl list list list" where
  "demo_stream_pred =
     [replicate 4 [Some 0, Some 1, Some 1, Some 0, Some 0],
      replicate 4 [Some 0, Some (- 1), Some (- 1), Some 0, Some 0]]"

definition demo_programs :: "int list" where
  "demo_programs = [40, 41]"

definition demo_names :: "int \<Rightarrow> string option" where
  "demo_names prog =
     (if prog = 40 then Some ''Violin'' else if prog = 41 then Some ''Viola'' else None)"

text \<open>
  The four bins of pitch 0 of a merged channel of 6 frames, 0.9 from frame 2 on and 0.1
  before, and the down-sampled activity of pitch 0 that goes with it.
\<close>

definition demo_mix :: "fl list list" where
  "demo_mix = map (\<lambda>t. replicate 4 (Some (if 2 \<le> t then 9 / 10 else 1 / 10))) [0..<6]"

definition demo_prob :: "real list list" where
  "demo_prob = map (\<lambda>t. [if 2 \<le> t then 1 else 0]) [0..<6]"

text \<open>A prediction of 2 frames and 1 bin whose duration and onset channels are both 1.\<close>

definition demo_equal_pred :: "fl list list list" where
  "demo_equal_pred = replicate 2 [[Some 0, Some 1, Some 1]]"


text \<open>The channel container of \<open>demo_stream_pred\<close>: duration channels, then onset channels.\<close>

definition demo_cc :: "fl list list list list" where
  "demo_cc = [[replicate 4 [Some 1, Some 0], replicate 4 [Some (- 1), Some 0]],
              [replicate 4 [Some 1, Some 0], replicate 4 [Some (- 1), Some 0]]]"

text \<open>
  A prediction of 2 frames and 2 bins (channels: background, duration, onset): the onset of
  bin 0 is below its duration, the onset of bin 1 equals it.
\<close>

definition demo_clip_pred :: "fl list list list" where
  "demo_clip_pred = replicate 2 [[Some 0, Some 2, Some 1], [Some 0, Some 3, Some 3]]"



section \<open>Theorems\<close>

subsection \<open>The deletion loop is a filter\<close>

lemma length_provisional: "length (provisional w a ps) = length ps"
  by (induction w a ps rule: provisional.induct) auto

lemma start_provisional: "i < length ps \<Longrightarrow> start (provisional w a ps ! i) = int (ps ! i) - a"
  apply (induction w a ps arbitrary: i rule: provisional.induct) 
    apply (auto simp: nth_Cons split: nat.splits)
  done

lemma del_loop_nths:
  "sorted_wrt (<) ds \<Longrightarrow> \<forall>d\<in>set ds. ii \<le> d \<and> d < ii + length xs \<Longrightarrow>
   del_loop (int ii) ds xs = Inr (nths xs {j. j + ii \<notin> set ds})"
proof (induction ds arbitrary: ii xs)
  case Nil
  then show ?case by (simp add: nths_all)
next
  case (Cons d ds)
  let ?k = "d - ii"
  let ?xs' = "take ?k xs @ drop (Suc ?k) xs"
  have k: "?k < length xs" "ii \<le> d" using Cons.prems by auto
  have gt: "\<forall>e\<in>set ds. d < e" using Cons.prems(1) by auto
  have del: "py_del xs (int d - int ii) = Inr ?xs'"
    using k by (auto simp: py_del_def Let_def nat_diff_distrib)
  have len: "length ?xs' = length xs - 1" using k by auto
  have ih: "del_loop (int (Suc ii)) ds ?xs' = Inr (nths ?xs' {j. j + Suc ii \<notin> set ds})"
  proof (rule Cons.IH)
    show "sorted_wrt (<) ds" using Cons.prems(1) by simp
    show "\<forall>e\<in>set ds. Suc ii \<le> e \<and> e < Suc ii + length ?xs'"
      using gt k Cons.prems(2) len by fastforce
  qed
  have split: "xs = take ?k xs @ (xs ! ?k) # drop (Suc ?k) xs"
    using k by (simp add: id_take_nth_drop)
  have lt: "length (take ?k xs) = ?k" using k by simp
  have A: "nths (take ?k xs) {j. j + Suc ii \<notin> set ds} = take ?k xs"
    using gt k by (intro nths_all) auto
  have B: "nths (take ?k xs) {j. j + ii \<notin> set (d # ds)} = take ?k xs"
    using gt k by (intro nths_all) auto
  have C: "{j. j + ?k + Suc ii \<notin> set ds} = {j. Suc (j + ?k) + ii \<notin> set (d # ds)}"
    using k by auto
  have "nths xs {j. j + ii \<notin> set (d # ds)} =
        nths (take ?k xs @ (xs ! ?k) # drop (Suc ?k) xs) {j. j + ii \<notin> set (d # ds)}"
    using split by simp
  also have "\<dots> = take ?k xs @ nths (drop (Suc ?k) xs) {j. Suc (j + ?k) + ii \<notin> set (d # ds)}"
    unfolding nths_append nths_Cons B lt using k by simp
  also have "\<dots> = nths ?xs' {j. j + Suc ii \<notin> set ds}"
    unfolding nths_append A lt C[symmetric] by simp
  finally show ?case using del ih by (simp add: add.commute)
qed

lemma scan_step_eq:
  assumes nk: "ns ! k = cands ! k"
  shows "scan_step w_dura shortest oi peaks (ns, ds) k =
      (ns[k := apply_verdict (verdict_of w_dura shortest oi peaks cands k) (cands ! k)],
       if verdict_of w_dura shortest oi peaks cands k = Discard then ds @ [k] else ds)"
proof -
  have same: "ns[k := cands ! k] = ns"
    using nk list_update_id[of ns k] by simp
  show ?thesis
    using nk same
    by (simp add: scan_step_def verdict_of_def apply_verdict_def split: option.splits)
qed

lemma scan_fold:
  assumes "k \<le> length cands"
  shows "foldl (scan_step w_dura shortest oi peaks) (cands, []) [0..<k] =
     (map (\<lambda>(c, idx). if idx < k then apply_verdict (verdict_of w_dura shortest oi peaks cands idx) c else c)
         (zip cands [0..<length cands]),
      filter (\<lambda>idx. verdict_of w_dura shortest oi peaks cands idx = Discard) [0..<k])"
  using assms
proof (induction k)
  case 0
  have "map (\<lambda>(c, idx). c) (zip cands [0..<length cands]) = cands"
    by (rule nth_equalityI) auto
  then show ?case by simp
next
  case (Suc k)
  define v where "v = verdict_of w_dura shortest oi peaks cands"
  define ns where "ns = map (\<lambda>(c, idx). if idx < k then apply_verdict (v idx) c else c)
         (zip cands [0..<length cands])"
  have k: "k < length cands" using Suc.prems by simp
  have nk: "ns ! k = cands ! k" using k by (simp add: ns_def)
  have upd: "ns[k := apply_verdict (v k) (cands ! k)] =
     map (\<lambda>(c, idx). if idx < Suc k then apply_verdict (v idx) c else c)
         (zip cands [0..<length cands])"
    unfolding ns_def using k
    by (intro nth_equalityI) (auto simp: nth_list_update less_Suc_eq)
  have ih: "foldl (scan_step w_dura shortest oi peaks) (cands, []) [0..<k] =
     (ns, filter (\<lambda>idx. v idx = Discard) [0..<k])"
    using Suc.IH k unfolding ns_def v_def by simp
  have "foldl (scan_step w_dura shortest oi peaks) (cands, []) [0..<Suc k] =
     scan_step w_dura shortest oi peaks (ns, filter (\<lambda>idx. v idx = Discard) [0..<k]) k"
    by (simp only: upt_Suc_append[OF le0] foldl_append ih foldl.simps)
  also have "\<dots> = (ns[k := apply_verdict (v k) (cands ! k)],
       if v k = Discard then filter (\<lambda>idx. v idx = Discard) [0..<k] @ [k]
       else filter (\<lambda>idx. v idx = Discard) [0..<k])"
    unfolding v_def by (rule scan_step_eq[OF nk])
  also have "\<dots> = (map (\<lambda>(c, idx). if idx < Suc k then apply_verdict (v idx) c else c)
         (zip cands [0..<length cands]), filter (\<lambda>idx. v idx = Discard) [0..<Suc k])"
    unfolding upd by simp
  finally show ?case unfolding v_def .
qed


lemma scan_fold_all:
  "foldl (scan_step w_dura shortest oi peaks) (cands, []) [0..<length cands] =
     (map (\<lambda>(c, idx). apply_verdict (verdict_of w_dura shortest oi peaks cands idx) c)
         (zip cands [0..<length cands]),
      filter (\<lambda>idx. verdict_of w_dura shortest oi peaks cands idx = Discard) [0..<length cands])"
proof -
  have "map (\<lambda>(c, idx). if idx < length cands
            then apply_verdict (verdict_of w_dura shortest oi peaks cands idx) c else c)
         (zip cands [0..<length cands]) =
        map (\<lambda>(c, idx). apply_verdict (verdict_of w_dura shortest oi peaks cands idx) c)
         (zip cands [0..<length cands])"
    by (rule map_cong) (auto dest: set_zip_rightD)
  then show ?thesis using scan_fold[of "length cands" cands w_dura shortest oi peaks] by simp
qed

lemma filter_zip_map2:
  "length xs = length js \<Longrightarrow>
   map fst (filter (\<lambda>p. P (snd p)) (zip (map (\<lambda>(c, i). g c i) (zip xs js)) js)) =
   map (\<lambda>(c, i). g c i) (filter (\<lambda>(c, i). P i) (zip xs js))"
  by (induction xs js rule: list_induct2) auto

lemma sorted_filter_upt: "sorted_wrt (<) (filter P [0..<n])"
  by (simp add: sorted_wrt_filter)

lemma infer_pitch_as_filter:
  "infer_pitch find_peaks pitch_arr shortest offset_interval =
   infer_pitch_filter find_peaks pitch_arr shortest offset_interval"
proof (cases "column 2 pitch_arr")
  case (Inl e)
  then show ?thesis by (simp add: infer_pitch_def infer_pitch_filter_def)
next
  case w_on: (Inr w_on)
  show ?thesis
  proof (cases "column 1 pitch_arr")
    case (Inl e)
    then show ?thesis using w_on by (simp add: infer_pitch_def infer_pitch_filter_def)
  next
    case w_dura: (Inr w_dura)
    define peaks where "peaks = find_peaks w_on shortest"
    define cands where "cands = provisional w_on (if shortest = 10 then 5 else 2) peaks"
    define v where "v = verdict_of w_dura shortest offset_interval peaks cands"
    define ns where "ns = map (\<lambda>(c, idx). apply_verdict (v idx) c) (zip cands [0..<length cands])"
    define ds where "ds = filter (\<lambda>idx. v idx = Discard) [0..<length cands]"
    have len: "length cands = length peaks" by (simp add: cands_def length_provisional)
    have fold: "foldl (scan_step w_dura shortest offset_interval peaks) (cands, []) [0..<length peaks]
        = (ns, ds)"
      using scan_fold_all[of w_dura shortest offset_interval peaks cands] len
      unfolding ns_def ds_def v_def by simp
    have "del_loop (int 0) ds ns = Inr (nths ns {j. j + 0 \<notin> set ds})"
      by (rule del_loop_nths) (auto simp: ds_def ns_def sorted_filter_upt)
    then have del: "del_loop 0 ds ns = Inr (nths ns {j. j \<notin> set ds})" by simp
    have lns: "length ns = length cands" by (simp add: ns_def)
    have "nths ns {j. j \<notin> set ds} =
       map fst (filter (\<lambda>p. snd p \<notin> set ds) (zip ns [0..<length cands]))"
      by (simp add: nths_def lns)
    also have "\<dots> = map fst (filter (\<lambda>p. v (snd p) \<noteq> Discard) (zip ns [0..<length cands]))"
      by (rule arg_cong[where f = "map fst"], rule filter_cong) (auto simp: ds_def dest: set_zip_rightD)
    also have "\<dots> = map (\<lambda>(c, idx). apply_verdict (v idx) c)
         (filter (\<lambda>(c, idx). v idx \<noteq> Discard) (zip cands [0..<length cands]))"
      unfolding ns_def by (rule filter_zip_map2) simp
    finally have res: "del_loop 0 ds ns = Inr (map (\<lambda>(c, idx). apply_verdict (v idx) c)
         (filter (\<lambda>(c, idx). v idx \<noteq> Discard) (zip cands [0..<length cands])))"
      using del by simp
    show ?thesis
    proof (cases "peaks = []")
      case True
      then show ?thesis using w_on w_dura
        by (simp add: infer_pitch_def infer_pitch_filter_def peaks_def[symmetric] Let_def)
    next
      case False
      then show ?thesis using w_on w_dura res fold
        by (simp add: infer_pitch_def infer_pitch_filter_def peaks_def[symmetric] Let_def
            cands_def[symmetric] v_def[symmetric])
    qed
  qed
qed

text \<open>
  C7. The index-based deletion of \<open>infer_pitch\<close> is a filter pass: the function equals
  \<open>infer_pitch_filter\<close>, which generates every candidate, decides each one's fate from
  its own forward scan, and keeps the survivors, in order, by one filter. The removed
  candidates are those of verdict \<open>Discard\<close>, whatever the order of deletion.
\<close>

theorem infer_pitch_filter_pass:
  "infer_pitch find_peaks pitch_arr shortest offset_interval =
   infer_pitch_filter find_peaks pitch_arr shortest offset_interval"
  by (rule infer_pitch_as_filter)

lemma demo_filter_value:
  "infer_pitch_filter (peaks_at [10, 30]) (demo_row 60 10 30 22 40) 10 12 =
     Inr [\<lparr>start = 25, endf = 40, stren = Some 6\<rparr>]"
  by code_simp

theorem infer_pitch_filter_pass_witness:
  "infer_pitch (peaks_at [10, 30]) (demo_row 60 10 30 22 40) 10 12 =
     Inr [\<lparr>start = 25, endf = 40, stren = Some 6\<rparr>]"
  using infer_pitch_filter_pass [of "peaks_at [10, 30]" "demo_row 60 10 30 22 40" 10 12]
  by (simp only: demo_filter_value)

subsection \<open>The scan of the last but one peak\<close>

text \<open>
  C4. The scan of a peak is bounded by the next peak only while \<open>idx < len(peaks) - 2\<close>:
  for the last but one peak it runs to the end of the row. On the example row (peaks 10
  and 30, duration active on frames 5 to 39) no frame before the second peak is silent, yet
  the first note ends at frame 40, past the second note's start at 25.
\<close>

theorem infer_pitch_scan_past_next_peak:
  "scan_upper [10, 30] 60 0 = 60 \<and>
   first_silent (map (\<lambda>r. r ! 1) (demo_row 60 10 30 5 40)) 12 10 30 = None \<and>
   infer_pitch (peaks_at [10, 30]) (demo_row 60 10 30 5 40) 10 12 =
     Inr [\<lparr>start = 5, endf = 40, stren = Some 6\<rparr>, \<lparr>start = 25, endf = 40, stren = Some 6\<rparr>]"
  by code_simp

subsection \<open>Onset alignment\<close>

lemma length_align: "length (align ls xs) = length xs"
  by (induction xs arbitrary: ls) (auto simp: Let_def)

lemma align_start_nonneg: "0 \<le> ls \<Longrightarrow> n \<in> set (align ls xs) \<Longrightarrow> 0 \<le> start n"
proof (induction xs arbitrary: ls)
  case Nil
  then show ?case by simp
next
  case (Cons x xs)
  show ?case
  proof (cases "start x - ls < 1")
    case True
    then show ?thesis using Cons by (auto simp: Let_def min_align_diff_def)
  next
    case False
    then have "0 \<le> start x" using Cons.prems(1) by simp
    then show ?thesis using False Cons.prems Cons.IH[of "start x"]
      by (auto simp: Let_def min_align_diff_def)
  qed
qed

lemma align_snap:
  "sorted (map start xs) \<Longrightarrow> i < length xs \<Longrightarrow> start (xs ! i) < 1 \<Longrightarrow>
   align 0 xs ! i = (xs ! i)\<lparr>start := 0, endf := endf (xs ! i) - start (xs ! i)\<rparr>"
proof (induction xs arbitrary: i)
  case Nil
  then show ?case by simp
next
  case (Cons x xs)
  have "start x \<le> start ((x # xs) ! i)"
    using Cons.prems(1,2) by (cases i) auto
  then have x: "start x < 1" using Cons.prems(3) by simp
  show ?case
  proof (cases i)
    case 0
    then show ?thesis using x by (simp add: Let_def min_align_diff_def)
  next
    case (Suc j)
    then show ?thesis using x Cons by (simp add: Let_def min_align_diff_def)
  qed
qed

text \<open>
  C10. Every note returned by \<open>infer_piece\<close> has a start frame of at least 0. The
  alignment pass starts from a last accepted start of 0, so each note of the sorted list
  whose start is below 1 (the negative provisional starts of \<open>infer_pitch\<close> among them) is
  moved to frame 0 and its end is shifted by the same amount.
\<close>

theorem infer_piece_start_nonneg:
  assumes "infer_piece find_peaks piece shortest_sec offset_sec t_unit = Inr notes"
  shows "(\<forall>n\<in>set notes. 0 \<le> start n) \<and>
     (\<exists>raw. collect_pitches find_peaks piece shortest_sec offset_sec t_unit [0..<88] = Inr raw \<and>
        length notes = length raw \<and>
        (\<forall>i<length raw. start (sort_key start raw ! i) < 1 \<longrightarrow>
           notes ! i = (sort_key start raw ! i)\<lparr>start := 0,
              endf := endf (sort_key start raw ! i) - start (sort_key start raw ! i)\<rparr>))"
proof -
  from assms obtain raw where
    raw: "collect_pitches find_peaks piece shortest_sec offset_sec t_unit [0..<88] = Inr raw"
    and ns: "notes = align 0 (sort_key start raw)"
    by (auto simp: infer_piece_def ebind_def split: if_splits sum.splits)
  have "\<forall>n\<in>set notes. 0 \<le> start n"
    unfolding ns using align_start_nonneg[of 0] by blast
  moreover have "length notes = length raw" by (simp add: ns length_align)
  moreover have "\<forall>i<length raw. start (sort_key start raw ! i) < 1 \<longrightarrow>
           notes ! i = (sort_key start raw ! i)\<lparr>start := 0,
              endf := endf (sort_key start raw ! i) - start (sort_key start raw ! i)\<rparr>"
    unfolding ns by (intro allI impI align_snap) (simp_all add: sorted_sort_key)
  ultimately show ?thesis using raw by blast
qed

lemma demo_piece_raw:
  "collect_pitches (peaks_at [4, 16]) (demo_piece 40 (demo_row 24 4 16 0 22))
      (1 / 10) (12 / 100) (1 / 100) [0..<88] =
     Inr [\<lparr>start = - 1, endf = 22, stren = Some 6, pitch = 40\<rparr>,
          \<lparr>start = 11, endf = 22, stren = Some 6, pitch = 40\<rparr>]"
  by code_simp

lemma demo_piece_notes:
  "infer_piece (peaks_at [4, 16]) (demo_piece 40 (demo_row 24 4 16 0 22))
      (1 / 10) (12 / 100) (1 / 100) =
     Inr [\<lparr>start = 0, endf = 23, stren = Some 6, pitch = 40\<rparr>,
          \<lparr>start = 11, endf = 22, stren = Some 6, pitch = 40\<rparr>]"
  by code_simp

theorem infer_piece_start_nonneg_witness:
  "infer_piece (peaks_at [4, 16]) (demo_piece 40 (demo_row 24 4 16 0 22))
      (1 / 10) (12 / 100) (1 / 100) =
     Inr [\<lparr>start = 0, endf = 23, stren = Some 6, pitch = 40\<rparr>,
          \<lparr>start = 11, endf = 22, stren = Some 6, pitch = 40\<rparr>] \<and>
   0 \<le> start \<lparr>start = 0, endf = 23, stren = Some (6 :: real), pitch = (40 :: int)\<rparr> \<and>
   0 \<le> start \<lparr>start = 11, endf = 22, stren = Some (6 :: real), pitch = (40 :: int)\<rparr> \<and>
   collect_pitches (peaks_at [4, 16]) (demo_piece 40 (demo_row 24 4 16 0 22))
      (1 / 10) (12 / 100) (1 / 100) [0..<88] =
     Inr [\<lparr>start = - 1, endf = 22, stren = Some 6, pitch = 40\<rparr>,
          \<lparr>start = 11, endf = 22, stren = Some 6, pitch = 40\<rparr>]"
  using infer_piece_start_nonneg [OF demo_piece_notes] demo_piece_notes demo_piece_raw by simp

subsection \<open>Velocity mapping\<close>

text \<open>
  C2. \<open>find_min_max_stren\<close> starts its minimum at 999 and its maximum at 0, so the bounds
  it returns are the minimum and maximum of the strengths only when these lie in [0, 999].
  Two notes of equal strength 1000 are mapped to velocity 126, not 60; of two notes of
  strengths -2 and -1 the stronger is mapped with the maximum 0, to 93, not with the
  maximum -1 of the set, to 126.
\<close>

theorem velocity_bounds_sentinels:
  "find_min_max_stren [strength_note 1000, strength_note 1000] = (999, 1000) \<and>
   to_midi [strength_note 1000, strength_note 1000] (1 / 50) =
     Inr [\<lparr>program = 0, name = [], inst_notes =
       [\<lparr>velocity = 126, note_pitch = 60, note_start = 0, note_end = 1 / 5\<rparr>,
        \<lparr>velocity = 126, note_pitch = 60, note_start = 0, note_end = 1 / 5\<rparr>]\<rparr>] \<and>
   find_min_max_stren [strength_note (- 2), strength_note (- 1)] = (- 2, 0) \<and>
   to_midi [strength_note (- 2), strength_note (- 1)] (1 / 50) =
     Inr [\<lparr>program = 0, name = [], inst_notes =
       [\<lparr>velocity = 60, note_pitch = 60, note_start = 0, note_end = 1 / 5\<rparr>,
        \<lparr>velocity = 93, note_pitch = 60, note_start = 0, note_end = 1 / 5\<rparr>]\<rparr>]"
  by (simp add: to_midi_def find_min_max_stren_def strength_note_def fl_gt_def fl_lt_def
      ebind_def to_note_def v_map_def py_int_def s_low_def s_up_def low_b_def)

subsection \<open>Temporal interpolation\<close>




subsection \<open>Onset clipping\<close>

text \<open>
  C5, as the claim states it, fails where the onset equals the duration: the comparison of
  \<open>np.where(onset < dura, 0, onset)\<close> is strict, so an onset of 1 on a duration of 1 is
  kept. It is kept through the whole of \<open>norm_onset_dura\<close> on a prediction whose two
  channels are 1 everywhere (no normalization, thresholds 0).
\<close>

theorem clip_onset_equal_kept:
  "(1 :: real) \<le> 1 \<and> zip2d clip_onset [[Some 1]] [[Some 1]] \<noteq> [[Some 0]] \<and>
   norm_onset_dura linear_spline demo_equal_pred 0 0 True False =
     Inr (replicate 4 [[Some 0, Some 2, Some 1]])"
proof -
  have "norm_onset_dura linear_spline demo_equal_pred 0 0 True False =
     Inr (replicate 4 [[Some 0, Some 2, Some 1]])"
    unfolding norm_onset_dura_def by (simp only: if_False if_True) code_simp
  then show ?thesis by (simp add: zip2d_def clip_onset_def)
qed

lemma put_channels_onset: "2 < c \<Longrightarrow> put_channels c du on ! 2 = on"
  by (simp add: put_channels_def)

lemma length_put_channels: "length (put_channels c du on) = c"
  by (simp add: put_channels_def)

lemma column_put_row:
  "length drow = length orow \<Longrightarrow> orow = [] \<or> 2 < c \<Longrightarrow>
   column 2 (map2 (put_channels c) drow orow) = Inr orow"
proof (induction drow orow rule: list_induct2)
  case Nil
  then show ?case by (simp add: column_def)
next
  case (Cons d ds x xs)
  then have c: "2 < c" by simp
  have "column 2 (map2 (put_channels c) ds xs) = Inr xs" using Cons.IH c by simp
  then show ?case using c
    by (auto simp: column_def put_channels_onset length_put_channels split: if_splits)
qed

lemma channel_put:
  "length du = length on \<Longrightarrow> list_all (\<lambda>r. length r = p) du \<Longrightarrow>
   list_all (\<lambda>r. length r = p) on \<Longrightarrow> p = 0 \<or> 2 < c \<Longrightarrow>
   channel 2 (zip2d (put_channels c) du on) = Inr on"
proof (induction du on rule: list_induct2)
  case Nil
  then show ?case by (simp add: channel_def zip2d_def)
next
  case (Cons d ds x xs)
  have row: "column 2 (map2 (put_channels c) d x) = Inr x"
    using Cons.prems by (intro column_put_row) auto
  have "channel 2 (zip2d (put_channels c) ds xs) = Inr xs"
    using Cons by simp
  then show ?case using row by (simp add: channel_def zip2d_def ebind_def)
qed

lemma has_shape_zip2d:
  "has_shape n p a \<Longrightarrow> has_shape n p b \<Longrightarrow> has_shape n p (zip2d f a b)"
  by (auto simp: has_shape_def zip2d_def list_all_iff dest!: set_zip_leftD set_zip_rightD
      elim!: in_set_zipE)

lemma has_shape_map2d: "has_shape n p a \<Longrightarrow> has_shape n p (map2d f a)"
  by (auto simp: has_shape_def map2d_def list_all_iff)

lemma has_shape_norm_arr: "has_shape n p a \<Longrightarrow> has_shape n p (norm_arr a)"
  by (auto simp: has_shape_def norm_arr_def Let_def list_all_iff)

lemma depth_of_channel:
  assumes "0 < width pred" "channel 2 pred = Inr pred2"
  shows "2 < depth pred"
proof -
  from assms(1) obtain cell cells rest where p: "pred = (cell # cells) # rest"
    by (cases pred; cases "hd pred") (auto simp: width_def)
  from assms(2) have "column 2 (cell # cells) \<noteq> Inl IndexError"
    unfolding p channel_def by (auto simp: ebind_def column_def split: sum.splits if_splits)
  then have "2 < length cell" by (auto simp: column_def split: if_splits)
  then show ?thesis by (simp add: p depth_def)
qed

lemma zip2d_nth:
  "has_shape n p a \<Longrightarrow> has_shape n p b \<Longrightarrow> t < n \<Longrightarrow> q < p \<Longrightarrow>
   zip2d f a b ! t ! q = f (a ! t ! q) (b ! t ! q)"
  by (simp add: has_shape_def zip2d_def list_all_length)

text \<open>
  C5, amended. Whenever \<open>norm_onset_dura\<close> returns, the onset channel of its result is
  the clipped onset array, normalized if asked for and thresholded; and in the clipped
  array, computed before normalization from the interpolated onset and duration channels,
  every position whose onset is strictly below its duration is zero and every position whose
  onset is at least its duration holds the onset unchanged.
\<close>

theorem norm_onset_dura_clips:
  assumes "norm_onset_dura cubic_spline pred onset_th dura_th interpolate normalize' = Inr out"
  shows "\<exists>pred2 pred1 onset0 dura0.
      channel 2 pred = Inr pred2 \<and>
      interpolation cubic_spline pred2 (2 / 100) (1 / 100) = Inr onset0 \<and>
      channel 1 pred = Inr pred1 \<and>
      interpolation cubic_spline pred1 (2 / 100) (1 / 100) = Inr dura0 \<and>
      has_shape (length out) (width pred) onset0 \<and> has_shape (length out) (width pred) dura0 \<and>
      (\<forall>t<length out. \<forall>q<width pred. \<forall>x y.
          onset0 ! t ! q = Some x \<longrightarrow> dura0 ! t ! q = Some y \<longrightarrow>
          zip2d clip_onset onset0 dura0 ! t ! q = (if x < y then Some 0 else Some x)) \<and>
      channel 2 out =
        Inr (map2d (below_to_zero onset_th)
               (if normalize' then norm_arr (zip2d clip_onset onset0 dura0)
                else zip2d clip_onset onset0 dura0))"
proof -
  define len where "len = (if interpolate then length pred * 2 else length pred)"
  from assms obtain pred2 onset0 pred1 dura0 where
    c2: "channel 2 pred = Inr pred2"
    and i2: "interpolation cubic_spline pred2 (2 / 100) (1 / 100) = Inr onset0"
    and c1: "channel 1 pred = Inr pred1"
    and i1: "interpolation cubic_spline pred1 (2 / 100) (1 / 100) = Inr dura0"
    and so: "has_shape len (width pred) onset0" and sd: "has_shape len (width pred) dura0"
    and out: "out = (let onset1 = zip2d clip_onset onset0 dura0;
              norm_onset = (if normalize' then norm_arr onset1 else onset1);
              onset = map2d (below_to_zero onset_th) norm_onset;
              norm_dura = (if normalize' then zip2d fl_add (norm_arr dura0) onset
                           else zip2d fl_add dura0 onset);
              dura = map2d (below_to_zero dura_th) norm_dura
          in zip2d (put_channels (depth pred)) dura onset)"
    unfolding norm_onset_dura_def len_def[symmetric] Let_def
    by (auto simp: ebind_def Let_def split: sum.splits if_splits)
  define clipped where "clipped = zip2d clip_onset onset0 dura0"
  define onset where "onset = map2d (below_to_zero onset_th)
      (if normalize' then norm_arr clipped else clipped)"
  define dura where "dura = map2d (below_to_zero dura_th)
      (if normalize' then zip2d fl_add (norm_arr dura0) onset else zip2d fl_add dura0 onset)"
  have o: "out = zip2d (put_channels (depth pred)) dura onset"
    using out by (simp add: Let_def clipped_def onset_def dura_def)
  have sc: "has_shape len (width pred) clipped"
    unfolding clipped_def by (rule has_shape_zip2d[OF so sd])
  have son: "has_shape len (width pred) onset"
    unfolding onset_def using sc by (auto intro: has_shape_map2d has_shape_norm_arr)
  have sdu: "has_shape len (width pred) dura"
    unfolding dura_def using sd son
    by (auto intro!: has_shape_map2d has_shape_zip2d has_shape_norm_arr)
  have lo: "length out = len"
    using son sdu by (simp add: o zip2d_def has_shape_def)
  have dp: "width pred = 0 \<or> 2 < depth pred"
    using depth_of_channel[OF _ c2] by auto
  have ch: "channel 2 out = Inr onset"
    unfolding o using son sdu dp by (intro channel_put[where p = "width pred"]) (auto simp: has_shape_def)
  have pt: "\<forall>t<length out. \<forall>q<width pred. \<forall>x y.
          onset0 ! t ! q = Some x \<longrightarrow> dura0 ! t ! q = Some y \<longrightarrow>
          zip2d clip_onset onset0 dura0 ! t ! q = (if x < y then Some 0 else Some x)"
    using zip2d_nth[OF so sd, where f = clip_onset] lo by (simp add: clip_onset_def)
  show ?thesis
    using c2 i2 c1 i1 so sd pt ch unfolding lo onset_def clipped_def by blast
qed

lemma demo_clip_run:
  "norm_onset_dura linear_spline demo_clip_pred 0 0 True False =
     Inr (replicate 4 [[Some 0, Some 2, Some 0], [Some 0, Some 6, Some 3]])"
  unfolding norm_onset_dura_def by (simp only: if_False if_True) code_simp

lemma demo_clip_channel:
  "channel 2 (replicate 4 [[Some 0, Some 2, Some 0], [Some 0, Some 6, Some (3::real)]]) =
     Inr (replicate 4 [Some 0, Some 3])"
  by code_simp

theorem norm_onset_dura_clips_witness:
  "norm_onset_dura linear_spline demo_clip_pred 0 0 True False =
     Inr (replicate 4 [[Some 0, Some 2, Some 0], [Some 0, Some 6, Some 3]]) \<and>
   channel 2 (replicate 4 [[Some 0, Some 2, Some 0], [Some 0, Some 6, Some (3::real)]]) =
     Inr (replicate 4 [Some 0, Some 3])"
  using norm_onset_dura_clips [OF demo_clip_run] demo_clip_run demo_clip_channel by simp

subsection \<open>Strength of a frame-mode note\<close>

text \<open>
  C6. The frame branch reads the strength of a note at the row \<open>int(onset * t_unit)\<close> of
  the merged channel: the onset in seconds, used as a frame index. With \<open>t_unit\<close> 0.02 the
  run of pitch 0 that starts at frame 2 gets the magnitude 0.1 of frame 0, not the 0.9 of
  its onset frame.
\<close>

theorem frame_note_strength_row:
  "find_occur [0, 0, 1, 1, 1, 1] (1 / 50) (3 / 100) = Inr [\<lparr>onset = 2, offset = 5\<rparr>] \<and>
   frame_notes demo_mix demo_prob (1 / 50) [0..<width demo_prob] =
     Inr [\<lparr>start = 2, endf = 5, stren = Some (1 / 10), pitch = 0\<rparr>] \<and>
   demo_mix ! 2 ! 0 = Some (9 / 10) \<and> demo_mix ! 0 ! 0 = Some (1 / 10)"
  by code_simp

subsection \<open>Every note event is well formed\<close>

lemma provisional_start_lt_end:
  "sorted_wrt (<) ps \<Longrightarrow> \<forall>p\<in>set ps. p < length w \<Longrightarrow> 0 \<le> adj \<Longrightarrow>
   c \<in> set (provisional w adj ps) \<Longrightarrow> start c < endf c"
  by (induction w adj ps rule: provisional.induct) auto

lemma infer_pitch_start_lt_end:
  assumes res: "infer_pitch fp arr shortest oi = Inr cs"
    and srt: "\<forall>w d. sorted_wrt (<) (fp w d)"
  shows "\<forall>c\<in>set cs. start c < endf c"
proof -
  have res': "infer_pitch_filter fp arr shortest oi = Inr cs"
    using res by (simp add: infer_pitch_as_filter)
  then obtain w_on w_dura where
    w: "column 2 arr = Inr w_on" "column 1 arr = Inr w_dura"
    by (auto simp: infer_pitch_filter_def split: sum.splits)
  define peaks where "peaks = fp w_on shortest"
  define cands where "cands = provisional w_on (if shortest = 10 then 5 else 2) peaks"
  define v where "v = verdict_of w_dura shortest oi peaks cands"
  from res' w have sh: "1 \<le> shortest" and inr: "\<forall>p\<in>set peaks. p < length w_on"
    and cs: "cs = map (\<lambda>(c, idx). apply_verdict (v idx) c)
                (filter (\<lambda>(c, idx). v idx \<noteq> Discard) (zip cands [0..<length cands]))"
    by (auto simp: infer_pitch_filter_def Let_def peaks_def cands_def v_def list_ex_iff
        split: if_splits)
  have prov: "\<forall>c\<in>set cands. start c < endf c"
    using provisional_start_lt_end[of peaks w_on "if shortest = 10 then 5 else 2"] srt inr
    by (auto simp: cands_def peaks_def)
  show ?thesis
  proof
    fix c assume "c \<in> set cs"
    then obtain c0 idx where m: "(c0, idx) \<in> set (zip cands [0..<length cands])"
      and nd: "v idx \<noteq> Discard" and c: "c = apply_verdict (v idx) c0"
      unfolding cs by auto
    from m have c0: "c0 = cands ! idx" "idx < length cands" "c0 \<in> set cands"
      by (auto simp: set_zip)
    show "start c < endf c"
    proof (cases "v idx")
      case Keep
      then show ?thesis using c c0 prov by (simp add: apply_verdict_def)
    next
      case Discard
      then show ?thesis using nd by simp
    next
      case (EndAt i)
      then have "\<not> int i - start (cands ! idx) < shortest"
        by (auto simp: v_def verdict_of_def split: option.splits if_splits)
      then show ?thesis using EndAt c c0 sh by (simp add: apply_verdict_def)
    qed
  qed
qed

lemma collect_pitches_valid:
  assumes "collect_pitches fp piece ss os tu idxs = Inr ns"
    and "\<forall>w d. sorted_wrt (<) (fp w d)"
  shows "\<forall>n\<in>set ns. start n < endf n \<and> pitch n \<in> int ` set idxs"
  using assms(1)
proof (induction idxs arbitrary: ns)
  case Nil
  then show ?case by simp
next
  case (Cons i idxs)
  show ?case
  proof (cases "sum_list (map sum_list (map (\<lambda>frame. frame ! i) piece)) \<le> 0")
    case True
    then show ?thesis using Cons by (auto simp: Let_def)
  next
    case False
    with Cons.prems obtain sh off pns rest where
      p: "infer_pitch fp (map (\<lambda>frame. frame ! i) piece) (py_round sh) (py_round off) = Inr pns"
      and r: "collect_pitches fp piece ss os tu idxs = Inr rest"
      and ns: "ns = map (with_pitch i) pns @ rest"
      by (auto simp: Let_def ebind_def split: sum.splits)
    have "\<forall>c\<in>set pns. start c < endf c"
      using infer_pitch_start_lt_end[OF p assms(2)] .
    then show ?thesis using Cons.IH[OF r] ns by (auto simp: with_pitch_def)
  qed
qed

lemma align_valid:
  "\<forall>n\<in>set xs. start n < endf n \<and> P (pitch n) \<Longrightarrow>
   \<forall>m\<in>set (align ls xs). start m < endf m \<and> P (pitch m)"
  by (induction xs arbitrary: ls) (auto simp: Let_def)

lemma infer_piece_valid:
  assumes "infer_piece fp piece ss os tu = Inr ns"
    and "\<forall>w d. sorted_wrt (<) (fp w d)"
  shows "\<forall>n\<in>set ns. start n < endf n \<and> 0 \<le> pitch n \<and> pitch n < 88"
proof -
  from assms(1) obtain raw where
    raw: "collect_pitches fp piece ss os tu [0..<88] = Inr raw"
    and ns: "ns = align 0 (sort_key start raw)"
    by (auto simp: infer_piece_def ebind_def split: if_splits sum.splits)
  have "\<forall>n\<in>set raw. start n < endf n \<and> (0 \<le> pitch n \<and> pitch n < 88)"
    using collect_pitches_valid[OF raw assms(2)] by auto
  then have "\<forall>n\<in>set (sort_key start raw). start n < endf n \<and> (0 \<le> pitch n \<and> pitch n < 88)"
    by simp
  from align_valid[OF this, of 0] show ?thesis unfolding ns by simp
qed

lemma emit_lt: "1 \<le> min_frm \<Longrightarrow> x \<in> set (emit min_frm s l) \<Longrightarrow> onset x < offset x"
  by (auto simp: emit_def split: if_splits)

lemma occur_loop_lt:
  "1 \<le> min_frm \<Longrightarrow> x \<in> set (occur_loop min_frm s l cs) \<Longrightarrow> onset x < offset x"
  by (induction cs arbitrary: s l) (auto dest: emit_lt split: if_splits)

lemma find_occur_lt:
  assumes "find_occur col t_unit md = Inr os" "0 < t_unit"
  shows "\<forall>x\<in>set os. onset x < offset x"
proof -
  define min_frm where "min_frm = max t_unit md / t_unit"
  have m: "1 \<le> min_frm" using assms(2) by (simp add: le_divide_eq min_frm_def)
  define cand where "cand = filter (\<lambda>i. 1 / 2 < col ! i) [0..<length col]"
  have "os = [] \<or> os = occur_loop min_frm (hd cand) (hd cand) cand"
    using assms by (auto simp: find_occur_def ebind_def py_fdiv_def Let_def min_frm_def cand_def
        split: if_splits)
  then show ?thesis using occur_loop_lt[OF m] by auto
qed

lemma emap_set:
  "emap f xs = Inr ys \<Longrightarrow> y \<in> set ys \<Longrightarrow> \<exists>x\<in>set xs. f x = Inr y"
  by (induction xs arbitrary: ys) (auto simp: ebind_def split: sum.splits)

lemma length_emap: "emap f xs = Inr ys \<Longrightarrow> length ys = length xs"
  by (induction xs arbitrary: ys) (auto simp: ebind_def split: sum.splits)

lemma emap_nth: "emap f xs = Inr ys \<Longrightarrow> i < length xs \<Longrightarrow> f (xs ! i) = Inr (ys ! i)"
  by (induction xs arbitrary: ys i) (auto simp: ebind_def nth_Cons split: sum.splits nat.splits)

lemma frame_notes_valid:
  assumes "frame_notes mix prob t_unit idxs = Inr ns" "0 < t_unit"
  shows "\<forall>n\<in>set ns. start n < endf n \<and> pitch n \<in> int ` set idxs"
  using assms(1)
proof (induction idxs arbitrary: ns)
  case Nil
  then show ?case by simp
next
  case (Cons idx idxs)
  from Cons.prems obtain col p_note ns1 more where
    occ: "find_occur col t_unit (3 / 100) = Inr p_note"
    and ns1: "emap (frame_note mix t_unit idx) p_note = Inr ns1"
    and more: "frame_notes mix prob t_unit idxs = Inr more"
    and ns: "ns = ns1 @ more"
    by (auto simp: ebind_def split: sum.splits)
  have "\<forall>n\<in>set ns1. start n < endf n \<and> pitch n = int idx"
  proof
    fix n assume "n \<in> set ns1"
    then obtain x where x: "x \<in> set p_note" "frame_note mix t_unit idx x = Inr n"
      using emap_set[OF ns1] by blast
    then have "onset x < offset x" using find_occur_lt[OF occ assms(2)] by blast
    then show "start n < endf n \<and> pitch n = int idx"
      using x(2) by (auto simp: frame_note_def ebind_def split: sum.splits)
  qed
  then show ?case using Cons.IH[OF more] ns by auto
qed

lemma min_max_loop_bounds:
  "min_max_loop (mn, mx) xs = (l, u) \<Longrightarrow>
   l \<le> mn \<and> mx \<le> u \<and> (\<forall>x. Some x \<in> set xs \<longrightarrow> l \<le> x \<and> x \<le> u)"
proof (induction xs arbitrary: mn mx)
  case Nil
  then show ?case by simp
next
  case (Cons a xs)
  let ?mx = "if fl_gt a mx then the a else mx"
  let ?mn = "if fl_lt a mn then the a else mn"
  from Cons.prems have "min_max_loop (?mn, ?mx) xs = (l, u)" by (simp add: Let_def)
  from Cons.IH[OF this] have ih: "l \<le> ?mn" "?mx \<le> u" "\<forall>x. Some x \<in> set xs \<longrightarrow> l \<le> x \<and> x \<le> u"
    by auto
  have a: "?mn \<le> mn" "mx \<le> ?mx" by (auto simp: fl_gt_def fl_lt_def split: option.splits)
  have b: "a = Some x \<Longrightarrow> ?mn \<le> x \<and> x \<le> ?mx" for x
    by (auto simp: fl_gt_def fl_lt_def)
  show ?case using ih a b by (auto; fastforce)
qed

lemma v_map_range:
  assumes "v_map l u s = Inr vol" "s = Some x" "l \<le> x" "x \<le> u"
  shows "60 \<le> vol \<and> vol \<le> 127"
proof -
  define D where "D = u - l + 1 / 10000"
  have D: "0 < D" using assms(3,4) by (simp add: D_def)
  define r where "r = (x - l) / D"
  have r0: "0 \<le> r" using assms(3) D by (simp add: r_def)
  have r1: "r < 1" using assms(4) D by (simp add: r_def D_def)
  have vol: "vol = py_int (60 + 67 * r)"
    using assms(1,2) D by (simp add: v_map_def D_def r_def s_low_def s_up_def)
  have ge: "(60::real) \<le> 60 + 67 * r" using r0 by simp
  have lt: "60 + 67 * r < (127 :: real)" using r1 by simp
  have "vol = \<lfloor>60 + 67 * r\<rfloor>" using vol ge by (simp add: py_int_def)
  moreover have "(60::int) \<le> \<lfloor>60 + 67 * r\<rfloor>" using ge by (simp add: le_floor_iff)
  moreover have "\<lfloor>60 + 67 * r\<rfloor> < (127::int)" using lt by (simp add: floor_less_iff)
  ultimately show ?thesis by simp
qed

lemma to_notes_valid:
  assumes "to_notes l u tu ns = Inr ms" "0 < tu"
    and "\<forall>n\<in>set ns. start n < endf n \<and> 0 \<le> pitch n \<and> pitch n < 88"
    and "\<forall>n\<in>set ns. \<forall>x. stren n = Some x \<longrightarrow> l \<le> x \<and> x \<le> u"
  shows "\<forall>m\<in>set ms. valid_event m"
  using assms(1,3,4)
proof (induction ns arbitrary: ms)
  case Nil
  then show ?case by simp
next
  case (Cons n ns)
  from Cons.prems(1) obtain m ms' where
    m: "to_note l u tu n = Inr m" and ms': "to_notes l u tu ns = Inr ms'" and ms: "ms = m # ms'"
    by (auto simp: ebind_def split: sum.splits)
  from m obtain vol x where vol: "v_map l u (stren n) = Inr vol" "stren n = Some x"
    and mm: "m = \<lparr>velocity = vol, note_pitch = pitch n + low_b,
            note_start = of_int (start n) * tu, note_end = of_int (endf n) * tu\<rparr>"
    by (auto simp: to_note_def ebind_def v_map_def split: sum.splits option.splits)
  have "l \<le> x \<and> x \<le> u" using Cons.prems(3) vol(2) by simp
  then have v: "60 \<le> vol \<and> vol \<le> 127" using v_map_range[OF vol] by simp
  have "real_of_int (start n) < real_of_int (endf n)" using Cons.prems(2) by simp
  then have t: "of_int (start n) * tu < of_int (endf n) * tu" using assms(2) by simp
  have "valid_event m" using v t Cons.prems(2) by (simp add: mm valid_event_def low_b_def)
  moreover have "\<forall>m\<in>set ms'. valid_event m"
    using Cons.IH[OF ms'] Cons.prems(2,3) by simp
  ultimately show ?case using ms by simp
qed

lemma to_midi_valid:
  assumes "to_midi ns tu = Inr sc" "0 < tu"
    and "\<forall>n\<in>set ns. start n < endf n \<and> 0 \<le> pitch n \<and> pitch n < 88"
  shows "\<exists>ms. sc = [\<lparr>program = 0, name = [], inst_notes = ms\<rparr>] \<and> (\<forall>m\<in>set ms. valid_event m)"
proof -
  obtain l u where lu: "find_min_max_stren ns = (l, u)" by (cases "find_min_max_stren ns")
  then have b: "\<forall>n\<in>set ns. \<forall>x. stren n = Some x \<longrightarrow> l \<le> x \<and> x \<le> u"
    using min_max_loop_bounds[of 999 0 "map stren ns" l u]
    by (auto simp: find_min_max_stren_def) (metis image_eqI)+
  from assms(1) lu obtain ms where ms: "to_notes l u tu ns = Inr ms"
    and sc: "sc = [\<lparr>program = 0, name = [], inst_notes = ms\<rparr>]"
    by (auto simp: to_midi_def ebind_def split: sum.splits)
  show ?thesis using to_notes_valid[OF ms assms(2,3) b] sc by simp
qed

lemma ebind_Inr: "ebind m f = Inr y \<longleftrightarrow> (\<exists>x. m = Inr x \<and> f x = Inr y)"
  by (cases m) (simp_all add: ebind_def)

lemma ebind_Inr_prod:
  "ebind m (\<lambda>(a, b). f a b) = Inr y \<longleftrightarrow> (\<exists>a b. m = Inr (a, b) \<and> f a b = Inr y)"
  by (cases m) (auto simp: ebind_def)

lemma multi_inst_loop:
  assumes "multi_inst_note_inference E name_mapping pred mode onset_ths dura_ths frm_ths inst_th
            normalize' t_unit channel_program_mapping = Inr sc"
  shows "\<exists>mode1 cpi cc0 iters cc oths dths fths.
     mode_channels mode = Inr (mode1, cpi) \<and>
     containers pred cpi ((int (depth pred) - 1) div cpi) normalize' = Inr cc0 \<and>
     merge_channels mode1 ((int (depth pred) - 1) div cpi) cc0 = Inr (iters, cc) \<and>
     inst_loop E name_mapping channel_program_mapping pred cc mode1 iters cpi oths dths fths
       inst_th normalize' t_unit [0..<nat iters] = Inr sc"
proof -
  from assms[unfolded multi_inst_note_inference_def ebind_Inr_prod] obtain mode1 cpi where
    mc: "mode_channels mode = Inr (mode1, cpi)" and
    r1: "(if (int (depth pred) - 1) mod cpi \<noteq> 0 then Inl AssertionError
       else
         ebind (containers pred cpi ((int (depth pred) - 1) div cpi) normalize')
           (\<lambda>ch_container0.
         ebind (merge_channels mode1 ((int (depth pred) - 1) div cpi) ch_container0)
           (\<lambda>(iters, ch_container).
         ebind (threshold_type_converter onset_ths (nat iters)) (\<lambda>onset_ths.
         ebind (threshold_type_converter dura_ths (nat iters)) (\<lambda>dura_ths.
         ebind (threshold_type_converter frm_ths (nat iters)) (\<lambda>frm_ths.
           inst_loop E name_mapping channel_program_mapping pred ch_container mode1 iters
             cpi onset_ths dura_ths frm_ths inst_th normalize' t_unit
             [0..<nat iters])))))) = Inr sc"
    by blast
  have r2: "ebind (containers pred cpi ((int (depth pred) - 1) div cpi) normalize')
           (\<lambda>ch_container0.
         ebind (merge_channels mode1 ((int (depth pred) - 1) div cpi) ch_container0)
           (\<lambda>(iters, ch_container).
         ebind (threshold_type_converter onset_ths (nat iters)) (\<lambda>onset_ths.
         ebind (threshold_type_converter dura_ths (nat iters)) (\<lambda>dura_ths.
         ebind (threshold_type_converter frm_ths (nat iters)) (\<lambda>frm_ths.
           inst_loop E name_mapping channel_program_mapping pred ch_container mode1 iters
             cpi onset_ths dura_ths frm_ths inst_th normalize' t_unit
             [0..<nat iters]))))) = Inr sc"
    using r1 by (cases "(int (depth pred) - 1) mod cpi \<noteq> 0")
      (simp_all only: if_True if_False sum.distinct not_False_eq_True not_True_eq_False not_not)
  from r2[unfolded ebind_Inr[of "containers pred cpi ((int (depth pred) - 1) div cpi) normalize'"]]
  obtain cc0 where
    c0: "containers pred cpi ((int (depth pred) - 1) div cpi) normalize' = Inr cc0" and
    r3: "ebind (merge_channels mode1 ((int (depth pred) - 1) div cpi) cc0)
           (\<lambda>(iters, ch_container).
         ebind (threshold_type_converter onset_ths (nat iters)) (\<lambda>onset_ths.
         ebind (threshold_type_converter dura_ths (nat iters)) (\<lambda>dura_ths.
         ebind (threshold_type_converter frm_ths (nat iters)) (\<lambda>frm_ths.
           inst_loop E name_mapping channel_program_mapping pred ch_container mode1 iters
             cpi onset_ths dura_ths frm_ths inst_th normalize' t_unit
             [0..<nat iters])))) = Inr sc"
    by blast
  from r3[unfolded ebind_Inr_prod] obtain iters cc where
    mg: "merge_channels mode1 ((int (depth pred) - 1) div cpi) cc0 = Inr (iters, cc)" and
    r4: "ebind (threshold_type_converter onset_ths (nat iters)) (\<lambda>onset_ths.
         ebind (threshold_type_converter dura_ths (nat iters)) (\<lambda>dura_ths.
         ebind (threshold_type_converter frm_ths (nat iters)) (\<lambda>frm_ths.
           inst_loop E name_mapping channel_program_mapping pred cc mode1 iters
             cpi onset_ths dura_ths frm_ths inst_th normalize' t_unit
             [0..<nat iters]))) = Inr sc"
    by blast
  from r4[unfolded ebind_Inr] mc c0 mg show ?thesis by blast
qed

lemma note_inference_valid:
  assumes res: "note_inference E pred mode oth lo sb dth fth nz tu = Inr sc"
    and tu: "0 < tu"
    and srt: "\<forall>w d. sorted_wrt (<) (lib_find_peaks E w d)"
    and rds: "\<forall>a prob. roll_down_sample E a = Inr prob \<longrightarrow> width prob \<le> 88"
  shows "\<exists>ms. sc = [\<lparr>program = 0, name = [], inst_notes = ms\<rparr>] \<and> (\<forall>m\<in>set ms. valid_event m)"
proof (cases "prefix ''note'' mode")
  case True
  with res obtain ns where nb: "note_branch E pred oth lo sb dth nz = Inr ns"
    and tm: "to_midi ns (tu / 2) = Inr sc"
    by (auto simp: note_inference_def ebind_def split: sum.splits)
  from nb obtain piece where
    "infer_piece (lib_find_peaks E) piece (1 / 10) (12 / 100) (1 / 100) = Inr ns"
    by (auto simp: note_branch_def ebind_def split: sum.splits)
  from infer_piece_valid[OF this srt] have "\<forall>n\<in>set ns. start n < endf n \<and> 0 \<le> pitch n \<and> pitch n < 88" .
  moreover have "0 < tu / 2" using tu by simp
  ultimately show ?thesis using to_midi_valid[OF tm] by blast
next
  case False
  with res obtain ns where fb: "frame_branch E pred fth nz tu = Inr ns"
    and tm: "to_midi ns tu = Inr sc"
    by (auto simp: note_inference_def ebind_def split: sum.splits if_splits)
  from fb obtain mix a prob where p: "roll_down_sample E a = Inr prob"
    and fn: "frame_notes mix prob tu [0..<width prob] = Inr ns"
    by (auto simp: frame_branch_def ebind_def Let_def split: sum.splits)
  have "width prob \<le> 88" using rds p by blast
  then have "\<forall>n\<in>set ns. start n < endf n \<and> 0 \<le> pitch n \<and> pitch n < 88"
    using frame_notes_valid[OF fn tu] by auto
  then show ?thesis using to_midi_valid[OF tm tu] by blast
qed

lemma inst_loop_valid:
  assumes res: "inst_loop E names mapping pred cc mode iters cpi oths dths fths ith nz tu idxs = Inr sc"
    and tu: "0 < tu"
    and srt: "\<forall>w d. sorted_wrt (<) (lib_find_peaks E w d)"
    and rds: "\<forall>a prob. roll_down_sample E a = Inr prob \<longrightarrow> width prob \<le> 88"
  shows "\<forall>i\<in>set sc. \<forall>m\<in>set (inst_notes i). valid_event m"
  using res
proof (induction idxs arbitrary: sc)
  case Nil
  then show ?case by simp
next
  case (Cons i idxs)
  from Cons.prems obtain std where std: "inst_std cc i = Inr std"
    by (auto simp: ebind_def split: sum.splits)
  show ?case
  proof (cases "gated iters cpi ith std")
    case True
    then show ?thesis using Cons std by (auto simp: ebind_def split: sum.splits)
  next
    case False
    with Cons.prems std obtain normed midi prog nm more where
      ni: "note_inference E (dstack normed (length pred) (width pred)) mode (oths ! i) None 36
              (dths ! i) (fths ! i) nz tu = Inr midi"
      and more: "inst_loop E names mapping pred cc mode iters cpi oths dths fths ith nz tu idxs = Inr more"
      and sc: "sc = \<lparr>program = prog, name = nm, inst_notes = inst_notes (hd midi)\<rparr> # more"
      by (auto simp: ebind_def split: sum.splits option.splits)
    from note_inference_valid[OF ni tu srt rds]
    have "\<forall>m\<in>set (inst_notes (hd midi)). valid_event m" by auto
    then show ?thesis using Cons.IH[OF more] sc by simp
  qed
qed

text \<open>
  C1. Every note event of a score produced by \<open>note_inference\<close> or by
  \<open>multi_inst_note_inference\<close> starts before it ends, has a pitch from 21 to 108 and a
  velocity from 60 to 127. The time unit is positive; the library's \<open>find_peaks\<close> returns
  its peaks in increasing order, and the down-sampled activity array has at most 88 pitches.
\<close>

theorem score_events_valid:
  assumes tu: "0 < t_unit"
    and srt: "\<forall>w d. sorted_wrt (<) (lib_find_peaks E w d)"
    and rds: "\<forall>a prob. roll_down_sample E a = Inr prob \<longrightarrow> width prob \<le> 88"
  shows "(note_inference E pred mode onset_th lower_onset_th split_bound dura_th frm_th
            normalize' t_unit = Inr sc \<longrightarrow>
          (\<forall>i\<in>set sc. \<forall>m\<in>set (inst_notes i). valid_event m)) \<and>
         (multi_inst_note_inference E name_mapping pred mode onset_ths dura_ths frm_ths inst_th
            normalize' t_unit channel_program_mapping = Inr sc' \<longrightarrow>
          (\<forall>i\<in>set sc'. \<forall>m\<in>set (inst_notes i). valid_event m))"
proof (intro conjI impI)
  assume "note_inference E pred mode onset_th lower_onset_th split_bound dura_th frm_th
            normalize' t_unit = Inr sc"
  from note_inference_valid[OF this tu srt rds]
  show "\<forall>i\<in>set sc. \<forall>m\<in>set (inst_notes i). valid_event m" by auto
next
  assume "multi_inst_note_inference E name_mapping pred mode onset_ths dura_ths frm_ths inst_th
            normalize' t_unit channel_program_mapping = Inr sc'"
  from multi_inst_loop[OF this] obtain cc mode1 iters cpi oths dths fths where
    "inst_loop E name_mapping channel_program_mapping pred cc mode1 iters cpi oths dths fths
       inst_th normalize' t_unit [0..<nat iters] = Inr sc'"
    by blast
  from inst_loop_valid[OF this tu srt rds]
  show "\<forall>i\<in>set sc'. \<forall>m\<in>set (inst_notes i). valid_event m" .
qed

subsection \<open>The presence gate\<close>

lemma demo_containers: "containers demo_stream_pred 2 2 False = Inr demo_cc"
  unfolding containers_def by (simp only: if_False) code_simp

lemma demo_ch0:
  "emap (channel 0) demo_cc =
     Inr [[replicate 4 (Some 1), replicate 4 (Some (- 1))],
          [replicate 4 (Some 1), replicate 4 (Some (- 1))]]"
  by code_simp

lemma demo_ch1:
  "emap (channel 1) demo_cc =
     Inr [[replicate 4 (Some 0), replicate 4 (Some 0)],
          [replicate 4 (Some 0), replicate 4 (Some 0)]]"
  by code_simp

lemma std_pm: "np_std (concat [replicate 4 (Some 1), replicate 4 (Some (- 1))]) = Some 1"
  by (simp add: np_std_def np_mean_def numeral_eq_Suc)

lemma std_pm': "np_std (replicate 4 (Some 1) @ replicate 4 (Some (- 1))) = Some 1"
  using std_pm by simp

lemma std_zero': "np_std (replicate 4 (Some 0) @ replicate 4 (Some 0)) = Some 0"
  by (simp add: np_std_def np_mean_def numeral_eq_Suc)

lemma std_zero: "np_std (concat [replicate 4 (Some 0), replicate 4 (Some 0)]) = Some 0"
  by (simp add: np_std_def np_mean_def numeral_eq_Suc)

lemma demo_std0: "inst_std demo_cc 0 = Inr (Some 2)"
  unfolding inst_std_def demo_ch0 by (simp add: ebind_def std_pm' fl_add_def)

lemma demo_std1: "inst_std demo_cc 1 = Inr (Some 0)"
  unfolding inst_std_def demo_ch1 by (simp add: ebind_def std_zero' fl_add_def)

lemma demo_stream_note:
  "note_inference (demo_env [])
      (dstack [[replicate 4 (Some 1), replicate 4 (Some (- 1))],
               [replicate 4 (Some 1), replicate 4 (Some (- 1))]] 2 4)
      ''frame-stream'' 5 None 36 2 1 False (1 / 50) =
     Inr [\<lparr>program = 0, name = [], inst_notes = []\<rparr>]"
proof -
  have p: "prefix ''note'' ''frame-stream'' = False" "prefix ''frame'' ''frame-stream'' = True"
    by simp_all
  show ?thesis
    unfolding note_inference_def frame_branch_def p
    by (simp only: if_False if_True) code_simp
qed

lemma demo_loop:
  "inst_loop (demo_env []) demo_names demo_programs demo_stream_pred demo_cc ''frame-stream''
      2 2 [5, 5] [2, 2] [1, 1] 1 False (1 / 50) [0, Suc 0] =
     Inr [\<lparr>program = 40, name = ''Violin'', inst_notes = []\<rparr>]"
proof -
  have g0: "gated 2 2 1 (Some 2) = False" by (simp add: gated_def fl_lt_def)
  have g1: "gated 2 2 1 (Some 0) = True" by (simp add: gated_def fl_lt_def)
  have sh: "length demo_stream_pred = 2" "width demo_stream_pred = 4"
    by (simp_all add: demo_stream_pred_def width_def)
  have pr: "py_nth demo_programs 0 = Inr 40" by (simp add: py_nth_def demo_programs_def)
  have nm: "demo_names 40 = Some ''Violin''" by (simp add: demo_names_def)
  have c1: "emap (channel (Suc 0)) demo_cc =
     Inr [[replicate 4 (Some 0), replicate 4 (Some 0)],
          [replicate 4 (Some 0), replicate 4 (Some 0)]]" using demo_ch1 by simp
  have s1: "inst_std demo_cc (Suc 0) = Inr (Some 0)" using demo_std1 by simp
  show ?thesis
    by (simp add: demo_ch0 c1 demo_std0 s1 g0 g1 sh pr nm demo_stream_note ebind_def
        del: replicate.simps)
qed

lemma demo_stream_run:
  "multi_inst_note_inference (demo_env []) demo_names demo_stream_pred ''frame-stream''
      (Scalar 5) (Scalar 2) (Scalar 1) 1 False (1 / 50) demo_programs =
     Inr [\<lparr>program = 40, name = ''Violin'', inst_notes = []\<rparr>]"
proof -
  have mc: "mode_channels ''frame-stream'' = Inr (''frame-stream'', 2)"
    by (simp add: mode_channels_def)
  have d: "depth demo_stream_pred = 5" by code_simp
  have mg: "merge_channels ''frame-stream'' 2 demo_cc = Inr (2, demo_cc)"
  proof -
    have sf: "suffix ''-stream'' ''frame-stream''" by code_simp
    show ?thesis by (simp add: merge_channels_def sf)
  qed
  have u: "[0..<nat 2] = [0, 1]" by (simp add: upt_rec)
  show ?thesis
    unfolding multi_inst_note_inference_def mc
    by (simp add: ebind_def d demo_containers mg threshold_type_converter_def u demo_loop
        numeral_eq_Suc[of "Num.Bit0 Num.One"] del: inst_loop.simps)
qed

lemma inst_loop_tracks:
  assumes "inst_loop E names mapping pred cc mode iters cpi oths dths fths ith nz tu idxs = Inr sc"
  shows "emap (\<lambda>i. py_nth mapping (int i)) (kept_instruments cc iters cpi ith idxs) =
           Inr (map program sc)"
  using assms
proof (induction idxs arbitrary: sc)
  case Nil
  then show ?case by (simp add: kept_instruments_def)
next
  case (Cons i idxs)
  from Cons.prems obtain std where std: "inst_std cc i = Inr std"
    by (auto simp: ebind_def split: sum.splits)
  show ?case
  proof (cases "gated iters cpi ith std")
    case True
    then have "kept_instruments cc iters cpi ith (i # idxs) = kept_instruments cc iters cpi ith idxs"
      using std by (auto simp: kept_instruments_def gated_def fl_lt_def split: option.splits)
    moreover have "inst_loop E names mapping pred cc mode iters cpi oths dths fths ith nz tu idxs = Inr sc"
      using Cons.prems std True by (auto simp: ebind_def split: sum.splits)
    ultimately show ?thesis using Cons.IH by simp
  next
    case False
    then have k: "kept_instruments cc iters cpi ith (i # idxs) = i # kept_instruments cc iters cpi ith idxs"
      using std by (auto simp: kept_instruments_def gated_def fl_lt_def split: option.splits)
    from False Cons.prems std obtain prog more where
      pr: "py_nth mapping (int i) = Inr prog"
      and more: "inst_loop E names mapping pred cc mode iters cpi oths dths fths ith nz tu idxs = Inr more"
      and sc: "map program sc = prog # map program more"
      by (auto simp: ebind_def split: sum.splits option.splits)
    show ?thesis using Cons.IH[OF more] pr sc k by (simp add: ebind_def)
  qed
qed


text \<open>
  C3, amended. The tracks of the score are, in order, those of the instruments the gate
  keeps: with more than one instrument iteration an instrument is left out exactly when its
  average channel standard deviation is strictly below \<open>inst_th\<close>. An instrument whose
  average is exactly \<open>inst_th\<close> is kept, and one whose average is below it never
  contributes a track.
\<close>

theorem presence_gate_strict:
  assumes "multi_inst_note_inference E name_mapping pred mode onset_ths dura_ths frm_ths inst_th
            normalize' t_unit channel_program_mapping = Inr sc"
  shows "\<exists>mode1 ch_per_inst cc0 iters ch_container.
     mode_channels mode = Inr (mode1, ch_per_inst) \<and>
     containers pred ch_per_inst ((int (depth pred) - 1) div ch_per_inst) normalize' = Inr cc0 \<and>
     merge_channels mode1 ((int (depth pred) - 1) div ch_per_inst) cc0 = Inr (iters, ch_container) \<and>
     emap (\<lambda>i. py_nth channel_program_mapping (int i))
       (kept_instruments ch_container iters ch_per_inst inst_th [0..<nat iters]) =
       Inr (map program sc)"
proof -
  from multi_inst_loop[OF assms] obtain mode1 cpi cc0 iters cc oths dths fths where
    f: "mode_channels mode = Inr (mode1, cpi)"
     "containers pred cpi ((int (depth pred) - 1) div cpi) normalize' = Inr cc0"
     "merge_channels mode1 ((int (depth pred) - 1) div cpi) cc0 = Inr (iters, cc)"
     "inst_loop E name_mapping channel_program_mapping pred cc mode1 iters cpi oths dths fths
       inst_th normalize' t_unit [0..<nat iters] = Inr sc"
    by blast
  from inst_loop_tracks[OF f(4)] f(1-3) show ?thesis by blast
qed

lemma demo_frame_run:
  "note_inference (demo_env []) demo_frame_pred ''frame'' 0 None 36 0 (1 / 2) False (1 / 50) =
     Inr [\<lparr>program = 0, name = [], inst_notes =
       [\<lparr>velocity = 60, note_pitch = 21, note_start = 1 / 25, note_end = 1 / 10\<rparr>]\<rparr>]"
proof -
  have p: "prefix ''note'' ''frame'' = False" "prefix ''frame'' ''frame'' = True" by simp_all
  show ?thesis
    unfolding note_inference_def frame_branch_def p
    by (simp only: if_False if_True) code_simp
qed

lemma demo_rds_width: "demo_roll_down_sample a = Inr prob \<Longrightarrow> width prob \<le> 88"
proof -
  assume a: "demo_roll_down_sample a = Inr prob"
  then have la: "list_all (\<lambda>r. length r mod 4 = 0 \<and> length r \<le> 352) a" and pr: "prob = map group4 a"
    by (auto simp: demo_roll_down_sample_def split: if_splits)
  show ?thesis
  proof (cases a)
    case Nil
    then show ?thesis using pr by (simp add: width_def)
  next
    case (Cons r rs)
    then have "length r \<le> 352" using la by simp
    then have "length r div 4 \<le> 88" by simp
    then show ?thesis using pr Cons by (simp add: width_def group4_def)
  qed
qed

lemma demo_env_fields:
  "lib_find_peaks (demo_env ps) = peaks_at ps" "lib_cubic_spline (demo_env ps) = linear_spline"
  "down_sample (demo_env ps) = demo_down_sample"
  "roll_down_sample (demo_env ps) = demo_roll_down_sample"
  by (simp_all add: demo_env_def)

theorem score_events_valid_witness:
  "note_inference (demo_env []) demo_frame_pred ''frame'' 0 None 36 0 (1 / 2) False (1 / 50) =
     Inr [\<lparr>program = 0, name = [], inst_notes =
       [\<lparr>velocity = 60, note_pitch = 21, note_start = 1 / 25, note_end = 1 / 10\<rparr>]\<rparr>] \<and>
   valid_event \<lparr>velocity = 60, note_pitch = 21, note_start = 1 / 25, note_end = 1 / 10\<rparr> \<and>
   multi_inst_note_inference (demo_env []) demo_names demo_stream_pred ''frame-stream''
      (Scalar 5) (Scalar 2) (Scalar 1) 1 False (1 / 50) demo_programs =
     Inr [\<lparr>program = 40, name = ''Violin'', inst_notes = []\<rparr>]"
proof -
  have tu: "(0::real) < 1 / 50" by simp
  have srt: "\<forall>w d. sorted_wrt (<) (lib_find_peaks (demo_env []) w d)"
    by (simp add: demo_env_fields peaks_at_def)
  have rds: "\<forall>a prob. roll_down_sample (demo_env []) a = Inr prob \<longrightarrow> width prob \<le> 88"
    by (simp add: demo_env_fields demo_rds_width)
  have a: "\<forall>i\<in>set [\<lparr>program = 0, name = [], inst_notes =
       [\<lparr>velocity = 60, note_pitch = 21, note_start = 1 / 25, note_end = 1 / 10\<rparr>]\<rparr>].
       \<forall>m\<in>set (inst_notes i). valid_event m"
    using score_events_valid [OF tu srt rds, where pred = demo_frame_pred and mode = "''frame''"
        and onset_th = 0 and lower_onset_th = None and split_bound = 36 and dura_th = 0
        and frm_th = "1 / 2" and normalize' = False] demo_frame_run
    by blast
  have b: "\<forall>i\<in>set [\<lparr>program = 40, name = ''Violin'', inst_notes = []\<rparr>].
       \<forall>m\<in>set (inst_notes i). valid_event m"
    using score_events_valid [OF tu srt rds, where pred = demo_stream_pred
        and mode = "''frame-stream''" and name_mapping = demo_names and onset_ths = "Scalar 5"
        and dura_ths = "Scalar 2" and frm_ths = "Scalar 1" and inst_th = 1 and normalize' = False
        and channel_program_mapping = demo_programs] demo_stream_run
    by blast
  from a b demo_frame_run demo_stream_run show ?thesis by simp
qed

text \<open>
  C3, as the claim states it, fails at the boundary. In mode \<open>frame-stream\<close> with two
  instruments and \<open>inst_th\<close> 1, both channels of instrument 0 have standard deviation 1,
  so its average is exactly \<open>inst_th\<close>; the gate \<open>std / ch_per_inst < inst_th\<close> does
  not hold and the score has the track of instrument 0 (program 40).
\<close>

theorem presence_gate_boundary_kept:
  "containers demo_stream_pred 2 2 False = Inr demo_cc \<and>
   inst_std demo_cc 0 = Inr (Some 2) \<and> (2 :: real) / real_of_int 2 = 1 \<and>
   \<not> gated 2 2 1 (Some 2) \<and>
   multi_inst_note_inference (demo_env []) demo_names demo_stream_pred ''frame-stream''
      (Scalar 5) (Scalar 2) (Scalar 1) 1 False (1 / 50) demo_programs =
     Inr [\<lparr>program = 40, name = ''Violin'', inst_notes = []\<rparr>]"
  using demo_containers demo_std0 demo_stream_run by (simp add: gated_def fl_lt_def)

lemma demo_kept: "kept_instruments demo_cc 2 2 1 [0, Suc 0] = [0]"
  using demo_std0 demo_std1 by (simp add: kept_instruments_def)

theorem presence_gate_strict_witness:
  "emap (\<lambda>i. py_nth demo_programs (int i)) (kept_instruments demo_cc 2 2 1 [0..<nat 2]) = Inr [40] \<and>
   kept_instruments demo_cc 2 2 1 [0, Suc 0] = [0]"
proof -
  have mc: "mode_channels ''frame-stream'' = Inr (''frame-stream'', 2)"
    by (simp add: mode_channels_def)
  have d: "depth demo_stream_pred = 5" by code_simp
  have sf: "suffix ''-stream'' ''frame-stream''" by code_simp
  have mg: "merge_channels ''frame-stream'' 2 demo_cc = Inr (2, demo_cc)"
    by (simp add: merge_channels_def sf)
  from presence_gate_strict [OF demo_stream_run]
  obtain mode1 cpi cc0 iters cc where
    f: "mode_channels ''frame-stream'' = Inr (mode1, cpi)"
     "containers demo_stream_pred cpi ((int (depth demo_stream_pred) - 1) div cpi) False = Inr cc0"
     "merge_channels mode1 ((int (depth demo_stream_pred) - 1) div cpi) cc0 = Inr (iters, cc)"
     "emap (\<lambda>i. py_nth demo_programs (int i)) (kept_instruments cc iters cpi 1 [0..<nat iters]) =
       Inr (map program [\<lparr>program = 40, name = ''Violin'', inst_notes = []\<rparr>])"
    by blast
  from f(1) mc have m: "mode1 = ''frame-stream''" "cpi = 2" by simp_all
  from f(2) have c0: "cc0 = demo_cc" unfolding m d using demo_containers by simp
  from f(3) have ic: "iters = 2" "cc = demo_cc" unfolding m d c0 using mg by simp_all
  from f(4) show ?thesis unfolding m ic using demo_kept by simp
qed


subsection \<open>The all-zero tensor\<close>
































end
